theory Spec2Isabelle
  imports Main "HOL-Library.Word" "HOL-Library.Signed_Division"
begin

section \<open>Data model\<close>

text \<open>
  The records of the DNS library that the program reads. Every resource record has a
  header; the typed records extend it with the fields the program uses. Names follow the
  Go source; a field is prefixed where two structs share its name.
\<close>

type_synonym uint8 = "8 word"
type_synonym uint16 = "16 word"
type_synonym uint32 = "32 word"

text \<open>A \<open>net.IP\<close>, kept in the presentation form that \<open>ip.String()\<close> yields.\<close>

type_synonym IP = string

record RR_Header =
  Name :: string
  Class :: uint16
  Ttl :: uint32

record RR_NS = RR_Header +
  Ns :: string

record RR_A = RR_Header +
  A_ip :: IP

record RR_AAAA = RR_Header +
  AAAA_ip :: IP

record DNSKEY = RR_Header +
  Flags :: uint16
  Protocol :: uint8
  DNSKEY_Algorithm :: uint8
  PublicKey :: string

record DS = RR_Header +
  DS_KeyTag :: uint16
  DS_Algorithm :: uint8
  DigestType :: uint8
  Digest :: string

record RRSIG = RR_Header +
  TypeCovered :: uint16
  RRSIG_Algorithm :: uint8
  Expiration :: uint32
  Inception :: uint32
  RRSIG_KeyTag :: uint16
  SignerName :: string
  Signature :: string

text \<open>
  \<open>dns.RR\<close> is an interface; the type switches and type assertions of the source are
  case distinctions on this datatype. \<open>Other_RR\<close> stands for every record type the program
  never looks into, with its type code.
\<close>

datatype RR =
    NS_RR RR_NS
  | A_RR RR_A
  | AAAA_RR RR_AAAA
  | DNSKEY_RR DNSKEY
  | DS_RR DS
  | RRSIG_RR RRSIG
  | Other_RR RR_Header uint16

definition TypeA :: uint16 where "TypeA = 1"
definition TypeNS :: uint16 where "TypeNS = 2"
definition TypeAAAA :: uint16 where "TypeAAAA = 28"
definition TypeDS :: uint16 where "TypeDS = 43"
definition TypeRRSIG :: uint16 where "TypeRRSIG = 46"
definition TypeDNSKEY :: uint16 where "TypeDNSKEY = 48"
definition ClassINET :: uint16 where "ClassINET = 1"

fun Header :: "RR \<Rightarrow> RR_Header" where
  "Header (NS_RR r) = RR_Header.truncate r"
| "Header (A_RR r) = RR_Header.truncate r"
| "Header (AAAA_RR r) = RR_Header.truncate r"
| "Header (DNSKEY_RR r) = RR_Header.truncate r"
| "Header (DS_RR r) = RR_Header.truncate r"
| "Header (RRSIG_RR r) = RR_Header.truncate r"
| "Header (Other_RR h t) = h"

fun Rrtype :: "RR \<Rightarrow> uint16" where
  "Rrtype (NS_RR r) = TypeNS"
| "Rrtype (A_RR r) = TypeA"
| "Rrtype (AAAA_RR r) = TypeAAAA"
| "Rrtype (DNSKEY_RR r) = TypeDNSKEY"
| "Rrtype (DS_RR r) = TypeDS"
| "Rrtype (RRSIG_RR r) = TypeRRSIG"
| "Rrtype (Other_RR h t) = t"

record Question =
  Q_Name :: string
  Qtype :: uint16
  Qclass :: uint16

text \<open>
  \<open>dns.Msg\<close>: the fields the program sets or reads. \<open>Edns0\<close> holds what
  \<open>SetEdns0(size, do)\<close> records (the UDP size and the DNSSEC-OK bit).
\<close>

record Msg =
  Msg_Id :: uint16
  RecursionDesired :: bool
  CheckingDisabled :: bool
  Edns0 :: "(uint16 \<times> bool) option"
  Question :: "Question list"
  Answer :: "RR list"

record NSInfo =
  NSInfo_Name :: string
  IP :: "IP list"

record KeyInfo =
  Start :: int
  End :: int

text \<open>\<open>structs.Response\<close> of the scan package: the reply may be absent (a nil pointer).\<close>

record Response =
  Response_Msg :: "Msg option"

text \<open>
  The error values. The source builds them with \<open>fmt.Errorf\<close>; each constructor is one
  of its messages, named as the specification's error taxonomy classifies it:
  \<^item> \<open>NoAnswer t\<close>: "no rr for t" (\<open>queryRRset\<close>);
  \<^item> \<open>NoNameservers\<close>: "no NS found" (\<open>findNS\<close>);
  \<^item> \<open>InconsistentKeys\<close>: "validation failed. DNSKEY with same keytag differ";
  \<^item> \<open>NoDNSKEY domain nsip\<close>: "validation failed. No DNSKEY found for domain on nsip";
  \<^item> \<open>DNSKEYValidationFailed domain\<close>: "validation failed. RRSIG on DNSKEY could not be
    validated by any DNSKEY for domain";
  \<^item> \<open>NoDS domain nsip\<close>: "validation failed. No DS records found for domain on nsip";
  \<^item> \<open>NoMatchingKeyTag domain parent\<close>: "validation failed. No DNSKEY in domain found
    that matches DS in parent";
  \<^item> \<open>ChainFailed\<close>: "validateChain failed. Run with -debug for more information";
  \<^item> \<open>TransportError msg\<close>: an error of the wire exchange, made outside this program.
\<close>

datatype error =
    TransportError string
  | NoAnswer uint16
  | NoNameservers
  | InconsistentKeys
  | NoDNSKEY string string
  | DNSKEYValidationFailed string
  | NoDS string string
  | NoMatchingKeyTag string string
  | ChainFailed

text \<open>
  A run-time panic (a nil-pointer dereference or a failed type assertion) ends the
  program; a function that can meet one returns \<open>Panic\<close> instead of a value.
\<close>

datatype 'a res = Panic | Ret 'a

text \<open>\<open>time.Time\<close>, as seconds since the Unix epoch and the nanoseconds within the second.\<close>

datatype Time = Time (Unix: int) (Nanosecond: nat)

text \<open>The zero \<open>time.Time\<close> is January 1, year 1, 00:00:00 UTC.\<close>

definition IsZero :: "Time \<Rightarrow> bool" where
  "IsZero t \<longleftrightarrow> Unix t = - 62135596800 \<and> Nanosecond t = 0"

section \<open>The environment\<close>

text \<open>
  Everything the program calls and does not define: the network, the clock, the DNS
  library's cryptography, and the two helpers of the scan package whose source is not
  part of the files at hand. Calls with an effect take the state of the world \<open>'w\<close> and
  return it, so that two calls with the same arguments may answer differently.
  \<^item> \<open>Exchange m addr\<close>: \<open>dns.Client.Exchange\<close>, the reply and the round-trip time, or
    an error;
  \<^item> \<open>NewId\<close>: \<open>dns.Id()\<close>, a fresh message id;
  \<^item> \<open>Now\<close>: \<open>time.Now()\<close>;
  \<^item> \<open>Verify sig key rrset\<close>: whether \<open>sig.Verify(key, rrset)\<close> returns a nil error, for a
    signature that is there and a record list that is an RRset;
  \<^item> \<open>KeyTag key\<close>: \<open>key.KeyTag()\<close>;
  \<^item> \<open>ToDS key digestType\<close>: \<open>key.ToDS(digestType)\<close>, nil for a digest type the library
    does not know;
  \<^item> \<open>scan_query name qtype nsip sec\<close>: the scan package's \<open>query\<close>, which returns a
    \<open>structs.Response\<close> and an error;
  \<^item> \<open>FindNS domain\<close>: the scan package's \<open>s.FindNS\<close>.
\<close>

record 'w env =
  Exchange :: "Msg \<Rightarrow> string \<Rightarrow> 'w \<Rightarrow> (error + Msg \<times> nat) \<times> 'w"
  NewId :: "'w \<Rightarrow> uint16 \<times> 'w"
  Now :: "'w \<Rightarrow> Time \<times> 'w"
  Verify :: "RRSIG \<Rightarrow> DNSKEY \<Rightarrow> RR list \<Rightarrow> bool"
  KeyTag :: "DNSKEY \<Rightarrow> uint16"
  ToDS :: "DNSKEY \<Rightarrow> uint8 \<Rightarrow> DS option"
  scan_query :: "string \<Rightarrow> uint16 \<Rightarrow> string \<Rightarrow> bool \<Rightarrow> 'w \<Rightarrow> (Response \<times> error option) \<times> 'w"
  FindNS :: "string \<Rightarrow> 'w \<Rightarrow> (NSInfo list \<times> error option) \<times> 'w"

section \<open>Domain names (main.go, and the library's label scanner)\<close>

text \<open>
  \<open>dns.NextLabel(s, offset)\<close> of the DNS library: the index after the next dot of \<open>s\<close>
  that is not escaped by a backslash, looking at the positions \<open>offset \<le> i < len(s) - 1\<close>;
  the flag says that the scan reached the end without finding one. \<open>NextLabel_from\<close> is
  its loop, on the part of the string from position \<open>i\<close> on.
\<close>

fun NextLabel_from :: "string \<Rightarrow> nat \<Rightarrow> bool \<Rightarrow> nat \<times> bool" where
  "NextLabel_from (c # c' # cs) i quote =
     (if c = CHR 0x5C then NextLabel_from (c' # cs) (i + 1) (\<not> quote)
      else if c = CHR ''.'' then
        (if quote then NextLabel_from (c' # cs) (i + 1) False else (i + 1, False))
      else NextLabel_from (c' # cs) (i + 1) False)"
| "NextLabel_from s i quote = (i + 1, True)"

definition NextLabel :: "string \<Rightarrow> nat \<Rightarrow> nat \<times> bool" where
  "NextLabel s offset = NextLabel_from (drop offset s) offset False"

text \<open>\<open>getParentDomain\<close> (main.go).\<close>

definition getParentDomain :: "string \<Rightarrow> string" where
  "getParentDomain domain =
     (case NextLabel domain 0 of (i, fin) \<Rightarrow> if \<not> fin then drop i domain else ''.'')"

text \<open>
  A scan that finds a dot returns an index behind its offset and inside the string: the
  loops below that call \<open>NextLabel\<close> again and again come to an end.
\<close>

lemma NextLabel_from_bounds:
  "NextLabel_from s i q = (j, False) \<Longrightarrow> i < j \<and> j < i + length s"
proof (induction s i q rule: NextLabel_from.induct)
  case (1 c c' cs i quote)
  then show ?case by (auto split: if_splits)
qed simp_all

lemma NextLabel_bounds:
  assumes "NextLabel s off = (j, False)"
  shows "off < j" and "j < length s"
proof -
  from assms have b: "off < j \<and> j < off + length (drop off s)"
    unfolding NextLabel_def by (rule NextLabel_from_bounds)
  then show "off < j" by simp
  from b show "j < length s" by (cases "off \<le> length s") auto
qed

text \<open>
  \<open>dns.CountLabel(s)\<close> of the DNS library: the number of labels of \<open>s\<close>, the root label
  not counted; the root name has none. Its loop calls \<open>NextLabel\<close> from the offset the
  call before returned, until the end is reached.
\<close>

function CountLabel_loop :: "string \<Rightarrow> nat \<Rightarrow> nat" where
  "CountLabel_loop s off =
     (case NextLabel s off of (off', fin) \<Rightarrow>
        if fin then 1 else 1 + CountLabel_loop s off')"
  by pat_completeness auto
termination
proof (relation "measure (\<lambda>(s, off). length s - off)", goal_cases)
  case 1
  show ?case by simp
next
  case (2 s off off' fin)
  then have "NextLabel s off = (off', False)" by simp
  from NextLabel_bounds [OF this] show ?case by simp
qed

definition CountLabel :: "string \<Rightarrow> nat" where
  "CountLabel s = (if s = ''.'' then 0 else CountLabel_loop s 0)"

text \<open>
  The label count of a name in the sense of the specification's data model, where a name
  always ends with the root label and the root is the single-label name: the labels that
  \<open>dns.CountLabel\<close> counts, and the root label.
\<close>

definition label_count :: "string \<Rightarrow> nat" where
  "label_count d = CountLabel d + 1"

lemma getParentDomain_shorter:
  "getParentDomain d \<noteq> ''.'' \<Longrightarrow> length (getParentDomain d) < length d"
proof (cases "NextLabel d 0")
  case (Pair i fin)
  assume ne: "getParentDomain d \<noteq> ''.''"
  with Pair have fin: "\<not> fin" and p: "getParentDomain d = drop i d"
    by (auto simp: getParentDomain_def split: if_splits)
  from Pair fin have "0 < i" and "i < length d"
    using NextLabel_bounds [of d 0 i] by auto
  with p show ?thesis by simp
qed

text \<open>
  The number of times \<open>getParentDomain\<close> is applied, starting from \<open>d\<close>, until the root
  name is reached.
\<close>

function parent_steps :: "string \<Rightarrow> nat" where
  "parent_steps d = (if d = ''.'' then 0 else 1 + parent_steps (getParentDomain d))"
  by pat_completeness auto
termination
proof (relation "measure (\<lambda>d. if d = ''.'' then 0 else length d + 2)")
  show "wf (measure (\<lambda>d. if d = ''.'' then 0 else length d + 2))" by simp
next
  fix d :: string
  assume "d \<noteq> ''.''"
  then show "(getParentDomain d, d) \<in> measure (\<lambda>d. if d = ''.'' then 0 else length d + 2)"
    using getParentDomain_shorter [of d] by auto
qed

declare CountLabel_loop.simps [simp del] parent_steps.simps [simp del]

text \<open>
  Names in presentation form. \<open>label_text l\<close>: \<open>l\<close> is the text of one label, in which a
  backslash escapes the character after it and no dot stands unescaped. \<open>fqdn ls\<close> is the
  fully qualified name with the labels \<open>ls\<close> below the root, leftmost first; the root
  itself is \<open>fqdn []\<close>.
\<close>

fun label_text :: "string \<Rightarrow> bool" where
  "label_text [] = True"
| "label_text [c] = (c \<noteq> CHR 0x5C \<and> c \<noteq> CHR ''.'')"
| "label_text (c # c' # cs) =
     (if c = CHR 0x5C then label_text cs else c \<noteq> CHR ''.'' \<and> label_text (c' # cs))"

definition fqdn :: "string list \<Rightarrow> string" where
  "fqdn ls = (if ls = [] then ''.'' else concat (map (\<lambda>l. l @ ''.'') ls))"

section \<open>DNS transport and NS discovery (main.go)\<close>

text \<open>The configured recursive resolver, a package variable that is never assigned.\<close>

definition resolver :: string where
  "resolver = ''8.8.8.8''"

text \<open>\<open>dns.Fqdn\<close> and \<open>net.JoinHostPort\<close>, as their libraries define them.\<close>

definition Fqdn :: "string \<Rightarrow> string" where
  "Fqdn s = (if s \<noteq> [] \<and> last s = CHR ''.'' then s else s @ ''.'')"

definition JoinHostPort :: "string \<Rightarrow> string \<Rightarrow> string" where
  "JoinHostPort host port =
     (if CHR '':'' \<in> set host \<or> CHR ''%'' \<in> set host then ''['' @ host @ '']:'' @ port
      else host @ '':'' @ port)"

definition prepMsg :: "'w env \<Rightarrow> 'w \<Rightarrow> Msg \<times> 'w" where
  "prepMsg env w =
     (case NewId env w of (i, w') \<Rightarrow>
        (\<lparr>Msg_Id = i, RecursionDesired = True, CheckingDisabled = False, Edns0 = None,
          Question = [\<lparr>Q_Name = [], Qtype = 0, Qclass = 0\<rparr>], Answer = []\<rparr>, w'))"

text \<open>
  \<open>query\<close>: the message and the round-trip time, or the error of the exchange. The Go
  function returns \<open>(nil, 0, err)\<close> on an error and \<open>(in, rtt, nil)\<close> otherwise.
\<close>

definition query :: "'w env \<Rightarrow> string \<Rightarrow> uint16 \<Rightarrow> string \<Rightarrow> bool \<Rightarrow> 'w \<Rightarrow> (error + Msg \<times> nat) \<times> 'w" where
  "query env q qtype server sec w =
     (case prepMsg env w of (m, w1) \<Rightarrow>
        let m = m\<lparr>CheckingDisabled := True\<rparr>;
            m = (if sec then m\<lparr>CheckingDisabled := False, Edns0 := Some (4096, True)\<rparr> else m);
            m = m\<lparr>Question := (Question m)[0 := \<lparr>Q_Name = Fqdn q, Qtype = qtype, Qclass = ClassINET\<rparr>]\<rparr>
        in Exchange env m (JoinHostPort server ''53'') w1)"

definition extractRR :: "RR list \<Rightarrow> uint16 \<Rightarrow> RR list" where
  "extractRR rrset qtype = filter (\<lambda>rr. Rrtype rr = qtype) rrset"

text \<open>
  \<open>queryRRset\<close> returns a triple in Go: the records, the round-trip time and an error.
  On an error the records are the empty list and the time is 0.
\<close>

definition queryRRset :: "'w env \<Rightarrow> string \<Rightarrow> uint16 \<Rightarrow> string \<Rightarrow> bool \<Rightarrow> 'w \<Rightarrow> (RR list \<times> nat \<times> error option) \<times> 'w" where
  "queryRRset env q qtype server sec w =
     (case query env q qtype server sec w of
        (Inl err, w') \<Rightarrow> (([], 0, Some err), w')
      | (Inr (res, rtt), w') \<Rightarrow>
          let rrset = extractRR (Answer res) qtype
          in if length rrset = 0 then (([], 0, Some (NoAnswer qtype)), w')
             else ((rrset, rtt, None), w'))"

fun getIP_loop :: "RR list \<Rightarrow> IP list \<Rightarrow> IP list" where
  "getIP_loop [] ips = ips"
| "getIP_loop (A_RR r # rrset) ips = getIP_loop rrset (ips @ [A_ip r])"
| "getIP_loop (AAAA_RR r # rrset) ips = getIP_loop rrset (ips @ [AAAA_ip r])"
| "getIP_loop (rr # rrset) ips = getIP_loop rrset ips"

definition getIP :: "'w env \<Rightarrow> string \<Rightarrow> uint16 \<Rightarrow> string \<Rightarrow> 'w \<Rightarrow> IP list \<times> 'w" where
  "getIP env host qtype server w =
     (case queryRRset env host qtype server False w of
        ((rrset, _, Some err), w') \<Rightarrow> ([], w')
      | ((rrset, _, None), w') \<Rightarrow> (getIP_loop rrset [], w'))"

text \<open>
  The loop of \<open>findNS\<close> over the NS records. The type assertion \<open>rr.(*dns.NS)\<close> panics on a
  record of another Go type.
\<close>

fun findNS_loop :: "'w env \<Rightarrow> RR list \<Rightarrow> NSInfo list \<Rightarrow> 'w \<Rightarrow> NSInfo list res \<times> 'w" where
  "findNS_loop env [] nsinfos w = (Ret nsinfos, w)"
| "findNS_loop env (NS_RR r # rrset) nsinfos w =
     (let ns = Ns r;
          ips = [] in
      case getIP env ns TypeA resolver w of (ips4, w1) \<Rightarrow>
      case getIP env ns TypeAAAA resolver w1 of (ips6, w2) \<Rightarrow>
        findNS_loop env rrset (nsinfos @ [\<lparr>NSInfo_Name = ns, IP = (ips @ ips4) @ ips6\<rparr>]) w2)"
| "findNS_loop env (rr # rrset) nsinfos w = (Panic, w)"

definition findNS :: "'w env \<Rightarrow> string \<Rightarrow> 'w \<Rightarrow> (NSInfo list \<times> error option) res \<times> 'w" where
  "findNS env domain w =
     (case queryRRset env domain TypeNS resolver False w of
        ((rrset, _, Some err), w1) \<Rightarrow> (Ret ([], None), w1)
      | ((rrset, _, None), w1) \<Rightarrow>
          (case findNS_loop env rrset [] w1 of
             (Panic, w2) \<Rightarrow> (Panic, w2)
           | (Ret nsinfos, w2) \<Rightarrow>
               if length nsinfos = 0 then (Ret (nsinfos, Some NoNameservers), w2)
               else (Ret (nsinfos, None), w2)))"

section \<open>Signature verifier (scan package)\<close>

text \<open>
  \<open>dns.IsRRset\<close> of the DNS library: a non-empty list of records that share name, type
  and class.
\<close>

definition IsRRset :: "RR list \<Rightarrow> bool" where
  "IsRRset rrset =
     (case rrset of
        [] \<Rightarrow> False
      | rr # rest \<Rightarrow>
          list_all (\<lambda>cur. \<not> (Rrtype cur \<noteq> Rrtype rr \<or> Class (Header cur) \<noteq> Class (Header rr)
                               \<or> Name (Header cur) \<noteq> Name (Header rr))) rest)"

text \<open>
  \<open>sig.Verify(key, rrset)\<close> for a signature pointer that may be nil. The library's method
  first rejects a list that is not an RRset; then it reads the signature's fields, which
  on a nil pointer is a nil-pointer dereference. \<open>Ret True\<close> is a nil error.
\<close>

definition RRSIG_Verify :: "'w env \<Rightarrow> RRSIG option \<Rightarrow> DNSKEY \<Rightarrow> RR list \<Rightarrow> bool res" where
  "RRSIG_Verify env sig key rrset =
     (if \<not> IsRRset rrset then Ret False
      else case sig of None \<Rightarrow> Panic | Some rr \<Rightarrow> Ret (Verify env rr key rrset))"

text \<open>Go's \<open>int64\<close>: an integer \<open>x\<close> as the 64-bit two's complement value it wraps to.\<close>

definition int64 :: "int \<Rightarrow> int" where
  "int64 x = signed_take_bit 63 x"

definition year68 :: int where
  "year68 = int64 (push_bit 31 1)"

text \<open>
  \<open>explicitValid\<close>. Go's \<open>/\<close> on integers truncates towards zero (\<open>sdiv\<close>); every
  operation wraps to 64 bits.
\<close>

definition explicitValid :: "'w env \<Rightarrow> RRSIG \<Rightarrow> 'w \<Rightarrow> (int \<times> int) \<times> 'w" where
  "explicitValid env rr w =
     (case Now env w of (t, w1) \<Rightarrow>
      case (if IsZero t then (case Now env w1 of (t', w2) \<Rightarrow> (Unix t', w2)) else (Unix t, w1))
      of (utc, w2) \<Rightarrow>
        let modi = int64 (int64 (uint (Inception rr) - utc) sdiv year68);
            mode = int64 (int64 (uint (Expiration rr) - utc) sdiv year68);
            ti = int64 (uint (Inception rr) + int64 (modi * year68));
            te = int64 (uint (Expiration rr) + int64 (mode * year68))
        in ((ti, te), w2))"

text \<open>
  \<open>rr.ValidityPeriod(t)\<close> of the DNS library, which \<open>explicitValid\<close> copies: the same
  numbers, and the test that the time lies between them.
\<close>

definition ValidityPeriod :: "'w env \<Rightarrow> RRSIG \<Rightarrow> Time \<Rightarrow> 'w \<Rightarrow> bool \<times> 'w" where
  "ValidityPeriod env rr t w =
     (case (if IsZero t then (case Now env w of (t', w1) \<Rightarrow> (Unix t', w1)) else (Unix t, w))
      of (utc, w1) \<Rightarrow>
        let modi = int64 (int64 (uint (Inception rr) - utc) sdiv year68);
            mode = int64 (int64 (uint (Expiration rr) - utc) sdiv year68);
            ti = int64 (uint (Inception rr) + int64 (modi * year68));
            te = int64 (uint (Expiration rr) + int64 (mode * year68))
        in (ti \<le> utc \<and> utc \<le> te, w1))"

text \<open>
  The first loop of \<open>validateRRSIG\<close>: \<open>sig\<close> is the last \<open>RRSIG\<close> of the list (nil when
  there is none), \<open>cleanset\<close> the other records in their order.
\<close>

fun split_rrset :: "RR list \<Rightarrow> RRSIG option \<Rightarrow> RR list \<Rightarrow> RRSIG option \<times> RR list" where
  "split_rrset [] sig cleanset = (sig, cleanset)"
| "split_rrset (RRSIG_RR s # rrset) sig cleanset = split_rrset rrset (Some s) cleanset"
| "split_rrset (v # rrset) sig cleanset = split_rrset rrset sig (cleanset @ [v])"

text \<open>The type assertions \<open>v.(*dns.RRSIG)\<close> and \<open>k.(*dns.DNSKEY)\<close>, as predicates.\<close>

fun is_RRSIG :: "RR \<Rightarrow> bool" where
  "is_RRSIG (RRSIG_RR s) = True"
| "is_RRSIG rr = False"

fun is_DNSKEY :: "RR \<Rightarrow> bool" where
  "is_DNSKEY (DNSKEY_RR s) = True"
| "is_DNSKEY rr = False"

definition empty_KeyInfo :: KeyInfo where
  "empty_KeyInfo = \<lparr>Start = 0, End = 0\<rparr>"

text \<open>
  The second loop of \<open>validateRRSIG\<close>, over the keys. A key that verifies the signature
  outside its validity period does not end the loop (the \<open>return\<close> there is commented
  out in the source).
\<close>

fun validateRRSIG_keys :: "'w env \<Rightarrow> RRSIG option \<Rightarrow> RR list \<Rightarrow> RR list \<Rightarrow> 'w
    \<Rightarrow> (bool \<times> KeyInfo \<times> error option) res \<times> 'w" where
  "validateRRSIG_keys env sig cleanset [] w = (Ret (False, empty_KeyInfo, None), w)"
| "validateRRSIG_keys env sig cleanset (DNSKEY_RR key # keys) w =
     (case (RRSIG_Verify env sig key cleanset, sig) of
        (Panic, _) \<Rightarrow> (Panic, w)
      | (Ret True, Some rr) \<Rightarrow>
          (case explicitValid env rr w of ((ti, te), w1) \<Rightarrow>
           case Now env w1 of (t, w2) \<Rightarrow>
           case ValidityPeriod env rr t w2 of (valid, w3) \<Rightarrow>
             if valid then (Ret (True, \<lparr>Start = ti, End = te\<rparr>, None), w3)
             else validateRRSIG_keys env sig cleanset keys w3)
      | _ \<Rightarrow> validateRRSIG_keys env sig cleanset keys w)"
| "validateRRSIG_keys env sig cleanset (k # keys) w = validateRRSIG_keys env sig cleanset keys w"

definition validateRRSIG :: "'w env \<Rightarrow> RR list \<Rightarrow> RR list \<Rightarrow> 'w
    \<Rightarrow> (bool \<times> KeyInfo \<times> error option) res \<times> 'w" where
  "validateRRSIG env keys rrset w =
     (if length rrset = 0 then (Ret (False, empty_KeyInfo, None), w)
      else case split_rrset rrset None [] of (sig, cleanset) \<Rightarrow>
        validateRRSIG_keys env sig cleanset keys w)"

definition validateDNSKEY :: "'w env \<Rightarrow> RR list \<Rightarrow> 'w \<Rightarrow> (bool \<times> KeyInfo \<times> error option) res \<times> 'w" where
  "validateDNSKEY env keys w = validateRRSIG env keys keys w"

section \<open>Zone validator and chain walker (scan package)\<close>

text \<open>
  The key map is a Go map from key tag to key; the functions that write to it return the
  map as they leave it. A loop of \<open>validateParentDS\<close> or \<open>validateDomain\<close> whose body
  can return from the function yields \<open>Inl r\<close> when it returned \<open>r\<close>, and \<open>Inr s\<close> when
  it ran to its end with the loop's variables \<open>s\<close>.
\<close>

type_synonym keyMap = "uint16 \<rightharpoonup> DNSKEY"

text \<open>The loop of \<open>LookupDNSKEY\<close> over the answer section ("map DNSKEYs").\<close>

fun LookupDNSKEY_loop :: "'w env \<Rightarrow> RR list \<Rightarrow> bool \<Rightarrow> keyMap \<Rightarrow> error option \<times> bool \<times> keyMap" where
  "LookupDNSKEY_loop env [] found keyMap = (None, found, keyMap)"
| "LookupDNSKEY_loop env (DNSKEY_RR key # answer) found keyMap =
     (case keyMap (KeyTag env key) of
        Some exist \<Rightarrow>
          if PublicKey key \<noteq> PublicKey exist then (Some InconsistentKeys, True, keyMap)
          else LookupDNSKEY_loop env answer True (keyMap(KeyTag env key \<mapsto> key))
      | None \<Rightarrow> LookupDNSKEY_loop env answer True (keyMap(KeyTag env key \<mapsto> key)))"
| "LookupDNSKEY_loop env (a # answer) found keyMap = LookupDNSKEY_loop env answer found keyMap"

text \<open>
  \<open>LookupDNSKEY\<close> returns the response, the error and the key map. An error of the query
  is logged and not returned. With no error, \<open>res.Msg.Answer\<close> is read: a nil \<open>res.Msg\<close>
  is a nil-pointer dereference.
\<close>

definition LookupDNSKEY :: "'w env \<Rightarrow> string \<Rightarrow> string \<Rightarrow> keyMap \<Rightarrow> 'w
    \<Rightarrow> (Response \<times> error option \<times> keyMap) res \<times> 'w" where
  "LookupDNSKEY env domain nsip keyMap w =
     (case scan_query env domain TypeDNSKEY nsip True w of
        ((res, Some err), w1) \<Rightarrow> (Ret (res, None, keyMap), w1)
      | ((res, None), w1) \<Rightarrow>
          (case Response_Msg res of
             None \<Rightarrow> (Panic, w1)
           | Some m \<Rightarrow>
               (case LookupDNSKEY_loop env (Answer m) False keyMap of
                  (Some e, found, keyMap') \<Rightarrow> (Ret (res, Some e, keyMap'), w1)
                | (None, found, keyMap') \<Rightarrow>
                    if \<not> found then (Ret (res, Some (NoDNSKEY domain nsip), keyMap'), w1)
                    else (Ret (res, None, keyMap'), w1))))"

text \<open>
  The innermost loop of \<open>validateParentDS\<close>, over the records of one answer ("look for
  all parent DS and compare digests"). In Go, \<open>break\<close> inside a \<open>switch\<close> leaves the
  switch, so the loop goes on with the next record.
\<close>

fun validateParentDS_answer :: "'w env \<Rightarrow> keyMap \<Rightarrow> RR list \<Rightarrow> bool \<Rightarrow> (bool \<times> error option) + bool" where
  "validateParentDS_answer env keyMap [] foundKeyTag = Inr foundKeyTag"
| "validateParentDS_answer env keyMap (DS_RR parentDS # answer) foundKeyTag =
     (case keyMap (DS_KeyTag parentDS) of
        None \<Rightarrow> validateParentDS_answer env keyMap answer foundKeyTag
      | Some key \<Rightarrow>
          if DigestType parentDS = 3 then validateParentDS_answer env keyMap answer foundKeyTag
          else
            (case ToDS env key (DigestType parentDS) of
               Some childDS \<Rightarrow>
                 if Digest parentDS = Digest childDS
                 then validateParentDS_answer env keyMap answer True
                 else Inl (False, None)
             | None \<Rightarrow> validateParentDS_answer env keyMap answer True))"
| "validateParentDS_answer env keyMap (a # answer) foundKeyTag =
     validateParentDS_answer env keyMap answer foundKeyTag"

text \<open>
  The loop over the addresses of one parent nameserver. An error of the query leaves this
  loop (\<open>break\<close>): the other addresses of the nameserver are not asked.
\<close>

fun validateParentDS_ips :: "'w env \<Rightarrow> string \<Rightarrow> keyMap \<Rightarrow> IP list \<Rightarrow> bool \<Rightarrow> 'w
    \<Rightarrow> ((bool \<times> error option) + bool) res \<times> 'w" where
  "validateParentDS_ips env domain keyMap [] foundKeyTag w = (Ret (Inr foundKeyTag), w)"
| "validateParentDS_ips env domain keyMap (nsip # ips) foundKeyTag w =
     (case scan_query env domain TypeDS nsip True w of
        ((res, Some err), w1) \<Rightarrow> (Ret (Inr foundKeyTag), w1)
      | ((res, None), w1) \<Rightarrow>
          (case Response_Msg res of
             None \<Rightarrow> (Panic, w1)
           | Some m \<Rightarrow>
               if length (Answer m) = 0 then (Ret (Inl (False, Some (NoDS domain nsip))), w1)
               else
                 (case validateParentDS_answer env keyMap (Answer m) foundKeyTag of
                    Inl r \<Rightarrow> (Ret (Inl r), w1)
                  | Inr foundKeyTag' \<Rightarrow> validateParentDS_ips env domain keyMap ips foundKeyTag' w1)))"

fun validateParentDS_nss :: "'w env \<Rightarrow> string \<Rightarrow> keyMap \<Rightarrow> NSInfo list \<Rightarrow> bool \<Rightarrow> 'w
    \<Rightarrow> ((bool \<times> error option) + bool) res \<times> 'w" where
  "validateParentDS_nss env domain keyMap [] foundKeyTag w = (Ret (Inr foundKeyTag), w)"
| "validateParentDS_nss env domain keyMap (ns # nsdata) foundKeyTag w =
     (case validateParentDS_ips env domain keyMap (IP ns) foundKeyTag w of
        (Panic, w1) \<Rightarrow> (Panic, w1)
      | (Ret (Inl r), w1) \<Rightarrow> (Ret (Inl r), w1)
      | (Ret (Inr foundKeyTag'), w1) \<Rightarrow> validateParentDS_nss env domain keyMap nsdata foundKeyTag' w1)"

definition validateParentDS :: "'w env \<Rightarrow> string \<Rightarrow> keyMap \<Rightarrow> 'w \<Rightarrow> (bool \<times> error option) res \<times> 'w" where
  "validateParentDS env domain keyMap w =
     (case FindNS env (getParentDomain domain) w of ((nsdata, err), w1) \<Rightarrow>
      case validateParentDS_nss env domain keyMap nsdata False w1 of
        (Panic, w2) \<Rightarrow> (Panic, w2)
      | (Ret (Inl r), w2) \<Rightarrow> (Ret r, w2)
      | (Ret (Inr foundKeyTag), w2) \<Rightarrow>
          if \<not> foundKeyTag
          then (Ret (False, Some (NoMatchingKeyTag domain (getParentDomain domain))), w2)
          else (Ret (True, None), w2))"

text \<open>
  The loops of \<open>validateDomain\<close> over the nameservers and their addresses (the DNSKEY
  phase). They end with the key map, or with the pair that \<open>validateDomain\<close> returns.
\<close>

fun validateDomain_ips :: "'w env \<Rightarrow> string \<Rightarrow> IP list \<Rightarrow> keyMap \<Rightarrow> 'w
    \<Rightarrow> ((bool \<times> error option) + keyMap) res \<times> 'w" where
  "validateDomain_ips env domain [] keyMap w = (Ret (Inr keyMap), w)"
| "validateDomain_ips env domain (nsip # ips) keyMap w =
     (case LookupDNSKEY env domain nsip keyMap w of
        (Panic, w1) \<Rightarrow> (Panic, w1)
      | (Ret (res, Some err, keyMap1), w1) \<Rightarrow> (Ret (Inl (False, Some err)), w1)
      | (Ret (res, None, keyMap1), w1) \<Rightarrow>
          (case Response_Msg res of
             None \<Rightarrow> validateDomain_ips env domain ips keyMap1 w1
           | Some m \<Rightarrow>
               (case validateDNSKEY env (Answer m) w1 of
                  (Panic, w2) \<Rightarrow> (Panic, w2)
                | (Ret (valid, info, _), w2) \<Rightarrow>
                    if valid then validateDomain_ips env domain ips keyMap1 w2
                    else (Ret (Inl (False, Some (DNSKEYValidationFailed domain))), w2))))"

fun validateDomain_nss :: "'w env \<Rightarrow> string \<Rightarrow> NSInfo list \<Rightarrow> keyMap \<Rightarrow> 'w
    \<Rightarrow> ((bool \<times> error option) + keyMap) res \<times> 'w" where
  "validateDomain_nss env domain [] keyMap w = (Ret (Inr keyMap), w)"
| "validateDomain_nss env domain (ns # nsdata) keyMap w =
     (case validateDomain_ips env domain (IP ns) keyMap w of
        (Panic, w1) \<Rightarrow> (Panic, w1)
      | (Ret (Inl r), w1) \<Rightarrow> (Ret (Inl r), w1)
      | (Ret (Inr keyMap1), w1) \<Rightarrow> validateDomain_nss env domain nsdata keyMap1 w1)"

definition validateDomain :: "'w env \<Rightarrow> string \<Rightarrow> 'w \<Rightarrow> (bool \<times> error option) res \<times> 'w" where
  "validateDomain env domain w =
     (case FindNS env domain w of ((nsdata, err), w1) \<Rightarrow>
      case validateDomain_nss env domain nsdata Map.empty w1 of
        (Panic, w2) \<Rightarrow> (Panic, w2)
      | (Ret (Inl r), w2) \<Rightarrow> (Ret r, w2)
      | (Ret (Inr keyMap), w2) \<Rightarrow>
          (case FindNS env (getParentDomain domain) w2 of (_, w3) \<Rightarrow>
             validateParentDS env domain keyMap w3))"

text \<open>
  \<open>validateChain\<close>: the loop ends when a zone does not validate or the parent is the
  root; otherwise it goes on with the parent, which is a shorter name.
\<close>

function validateChain :: "'w env \<Rightarrow> string \<Rightarrow> 'w \<Rightarrow> (bool \<times> error option) res \<times> 'w" where
  "validateChain env domain w =
     (case validateDomain env domain w of
        (Panic, w1) \<Rightarrow> (Panic, w1)
      | (Ret (valid, Some err), w1) \<Rightarrow> (Ret (False, Some err), w1)
      | (Ret (valid, None), w1) \<Rightarrow>
          if \<not> valid then (Ret (False, Some ChainFailed), w1)
          else let parent = getParentDomain domain
               in if parent = ''.'' then (Ret (True, None), w1)
                  else validateChain env parent w1)"
  by pat_completeness auto
termination
  by (relation "measure (\<lambda>(env, domain, w). length domain)")
    (auto dest: getParentDomain_shorter)

declare validateChain.simps [simp del]

text \<open>
  The same loop with a bound on the number of its iterations: \<open>None\<close> when the loop has
  not returned within \<open>n\<close> iterations.
\<close>

fun validateChain_fuel :: "nat \<Rightarrow> 'w env \<Rightarrow> string \<Rightarrow> 'w \<Rightarrow> ((bool \<times> error option) res \<times> 'w) option" where
  "validateChain_fuel 0 env domain w = None"
| "validateChain_fuel (Suc n) env domain w =
     (case validateDomain env domain w of
        (Panic, w1) \<Rightarrow> Some (Panic, w1)
      | (Ret (valid, Some err), w1) \<Rightarrow> Some (Ret (False, Some err), w1)
      | (Ret (valid, None), w1) \<Rightarrow>
          if \<not> valid then Some (Ret (False, Some ChainFailed), w1)
          else let parent = getParentDomain domain
               in if parent = ''.'' then Some (Ret (True, None), w1)
                  else validateChain_fuel n env parent w1)"


section \<open>A test fixture\<close>

text \<open>
  A stable zone fixture for the concrete runs: the world has no state, the clock stands
  at \<open>now\<close>, every NS discovery answers \<open>nss\<close> and every query of the scan package
  answers \<open>answers\<close>; the exchange of main.go answers \<open>wire\<close>. Its cryptography is a toy:
  a signature verifies with the key whose public key is its signature text, the key tag
  of a key is the length of its public key, and the digest of a key is its public key
  (for the digest types 1, 2 and 4).
\<close>

definition fixture :: "(Msg \<Rightarrow> string \<Rightarrow> error + Msg \<times> nat)
    \<Rightarrow> (string \<Rightarrow> uint16 \<Rightarrow> string \<Rightarrow> Response \<times> error option)
    \<Rightarrow> (string \<Rightarrow> NSInfo list \<times> error option) \<Rightarrow> int \<Rightarrow> unit env" where
  "fixture wire answers nss now =
     \<lparr>Exchange = (\<lambda>m addr w. (wire m addr, w)),
      NewId = (\<lambda>w. (0, w)),
      Now = (\<lambda>w. (Time now 0, w)),
      Verify = (\<lambda>sig key rrset. Signature sig = PublicKey key),
      KeyTag = (\<lambda>key. of_nat (length (PublicKey key))),
      ToDS = (\<lambda>key t. if t \<in> {1, 2, 4}
                then Some \<lparr>Name = Name key, Class = Class key, Ttl = Ttl key,
                  DS_KeyTag = of_nat (length (PublicKey key)),
                  DS_Algorithm = DNSKEY_Algorithm key, DigestType = t, Digest = PublicKey key\<rparr>
                else None),
      scan_query = (\<lambda>name qtype nsip sec w. (answers name qtype nsip, w)),
      FindNS = (\<lambda>domain w. (nss domain, w))\<rparr>"

definition no_wire :: "Msg \<Rightarrow> string \<Rightarrow> error + Msg \<times> nat" where
  "no_wire m addr = Inl (TransportError ''i/o timeout'')"

definition no_answers :: "string \<Rightarrow> uint16 \<Rightarrow> string \<Rightarrow> Response \<times> error option" where
  "no_answers name qtype nsip = (\<lparr>Response_Msg = None\<rparr>, Some (TransportError ''i/o timeout''))"

definition no_nss :: "string \<Rightarrow> NSInfo list \<times> error option" where
  "no_nss domain = ([], None)"

text \<open>Records of a test zone \<open>example.test.\<close>; \<open>sig1\<close> and \<open>sig2\<close> are made with \<open>key1\<close>.\<close>

definition key1 :: DNSKEY where
  "key1 = \<lparr>Name = ''example.test.'', Class = 1, Ttl = 3600,
     Flags = 257, Protocol = 3, DNSKEY_Algorithm = 8, PublicKey = ''KEY1''\<rparr>"

definition key2 :: DNSKEY where
  "key2 = \<lparr>Name = ''example.test.'', Class = 1, Ttl = 3600,
     Flags = 256, Protocol = 3, DNSKEY_Algorithm = 8, PublicKey = ''KEY2''\<rparr>"

definition sig1 :: RRSIG where
  "sig1 = \<lparr>Name = ''example.test.'', Class = 1, Ttl = 3600,
     TypeCovered = 48, RRSIG_Algorithm = 8, Expiration = 1800000000, Inception = 1600000000,
     RRSIG_KeyTag = 4, SignerName = ''example.test.'', Signature = ''KEY1''\<rparr>"

definition sig2 :: RRSIG where
  "sig2 = \<lparr>Name = ''example.test.'', Class = 1, Ttl = 3600,
     TypeCovered = 48, RRSIG_Algorithm = 8, Expiration = 4294967295, Inception = 1600000000,
     RRSIG_KeyTag = 4, SignerName = ''example.test.'', Signature = ''KEY1''\<rparr>"

text \<open>
  A wire for main.go on which the resolver knows one nameserver of \<open>example.test.\<close> and
  its IPv4 address, and nothing else.
\<close>

definition ns1 :: RR_NS where
  "ns1 = \<lparr>Name = ''example.test.'', Class = 1, Ttl = 3600, Ns = ''ns1.example.test.''\<rparr>"

definition a1 :: RR_A where
  "a1 = \<lparr>Name = ''ns1.example.test.'', Class = 1, Ttl = 3600, A_ip = ''192.0.2.1''\<rparr>"

definition wire1 :: "Msg \<Rightarrow> string \<Rightarrow> error + Msg \<times> nat" where
  "wire1 m addr =
     (if map Qtype (Question m) = [TypeNS] then Inr (m\<lparr>Answer := [NS_RR ns1]\<rparr>, 20)
      else if map Qtype (Question m) = [TypeA] then Inr (m\<lparr>Answer := [A_RR a1]\<rparr>, 20)
      else Inl (TransportError ''i/o timeout''))"

text \<open>
  The test zone on the scan package's side. \<open>example.test.\<close> is served at the addresses
  \<open>ips\<close>; the server at an address answers the DNSKEY query with what \<open>dnskeys\<close> gives
  for it; the DS query for \<open>example.test.\<close> is answered with the records \<open>dss\<close>; every
  other query times out. The parent \<open>test.\<close> has one nameserver with one address. The
  clock stands at 1700000000, inside the validity period of \<open>sig1\<close>.
\<close>

definition reply :: "RR list \<Rightarrow> Response \<times> error option" where
  "reply rrs =
     (\<lparr>Response_Msg = Some \<lparr>Msg_Id = 0, RecursionDesired = True, CheckingDisabled = False,
        Edns0 = Some (4096, True), Question = [], Answer = rrs\<rparr>\<rparr>, None)"

definition zone_answers :: "(string \<Rightarrow> Response \<times> error option) \<Rightarrow> RR list
    \<Rightarrow> string \<Rightarrow> uint16 \<Rightarrow> string \<Rightarrow> Response \<times> error option" where
  "zone_answers dnskeys dss name qtype nsip =
     (if name = ''example.test.'' \<and> qtype = TypeDNSKEY then dnskeys nsip
      else if name = ''example.test.'' \<and> qtype = TypeDS then reply dss
      else no_answers name qtype nsip)"

definition zone_nss :: "IP list \<Rightarrow> string \<Rightarrow> NSInfo list \<times> error option" where
  "zone_nss ips domain =
     (if domain = ''example.test.'' then ([\<lparr>NSInfo_Name = ''ns.example.test.'', IP = ips\<rparr>], None)
      else if domain = ''test.'' then ([\<lparr>NSInfo_Name = ''a.nic.test.'', IP = [''192.0.2.53'']\<rparr>], None)
      else ([], None))"

definition zone :: "IP list \<Rightarrow> (string \<Rightarrow> Response \<times> error option) \<Rightarrow> RR list \<Rightarrow> unit env" where
  "zone ips dnskeys dss = fixture no_wire (zone_answers dnskeys dss) (zone_nss ips) 1700000000"

definition ds_good :: DS where
  "ds_good = \<lparr>Name = ''example.test.'', Class = 1, Ttl = 3600,
     DS_KeyTag = 4, DS_Algorithm = 8, DigestType = 2, Digest = ''KEY1''\<rparr>"

definition ds_bad :: DS where
  "ds_bad = \<lparr>Name = ''example.test.'', Class = 1, Ttl = 3600,
     DS_KeyTag = 4, DS_Algorithm = 8, DigestType = 2, Digest = ''KEY0''\<rparr>"

definition ds_gost :: DS where
  "ds_gost = \<lparr>Name = ''example.test.'', Class = 1, Ttl = 3600,
     DS_KeyTag = 4, DS_Algorithm = 8, DigestType = 3, Digest = ''KEY0''\<rparr>"

definition signed_keys :: "string \<Rightarrow> Response \<times> error option" where
  "signed_keys nsip = reply [DNSKEY_RR key1, RRSIG_RR sig1]"




definition first_times_out :: "string \<Rightarrow> Response \<times> error option" where
  "first_times_out nsip =
     (if nsip = ''192.0.2.1'' then no_answers ''example.test.'' TypeDNSKEY nsip
      else reply [DNSKEY_RR key1, RRSIG_RR sig1])"



text \<open>
  The test zone with two parent nameservers, \<open>a.nic.test.\<close> at 192.0.2.53 and
  \<open>b.nic.test.\<close> at 192.0.2.54, each answering the DS query for \<open>example.test.\<close> with
  what \<open>dsat\<close> gives for its address. In \<open>good_then_bad\<close> the first publishes the digest
  of \<open>key1\<close> and the second another digest under the same key tag.
\<close>

definition parents_answers :: "(string \<Rightarrow> Response \<times> error option)
    \<Rightarrow> (string \<Rightarrow> Response \<times> error option)
    \<Rightarrow> string \<Rightarrow> uint16 \<Rightarrow> string \<Rightarrow> Response \<times> error option" where
  "parents_answers dnskeys dsat name qtype nsip =
     (if name = ''example.test.'' \<and> qtype = TypeDNSKEY then dnskeys nsip
      else if name = ''example.test.'' \<and> qtype = TypeDS then dsat nsip
      else no_answers name qtype nsip)"

definition parents_nss :: "string \<Rightarrow> NSInfo list \<times> error option" where
  "parents_nss domain =
     (if domain = ''example.test.''
      then ([\<lparr>NSInfo_Name = ''ns.example.test.'', IP = [''192.0.2.1'']\<rparr>], None)
      else if domain = ''test.''
      then ([\<lparr>NSInfo_Name = ''a.nic.test.'', IP = [''192.0.2.53'']\<rparr>,
             \<lparr>NSInfo_Name = ''b.nic.test.'', IP = [''192.0.2.54'']\<rparr>], None)
      else ([], None))"

definition good_then_bad :: "string \<Rightarrow> Response \<times> error option" where
  "good_then_bad nsip =
     (if nsip = ''192.0.2.54'' then reply [DS_RR ds_bad] else reply [DS_RR ds_good])"

definition zone_parents :: "(string \<Rightarrow> Response \<times> error option) \<Rightarrow> unit env" where
  "zone_parents dsat =
     fixture no_wire (parents_answers signed_keys dsat) parents_nss 1700000000"

section \<open>Parent derivation and the termination of the chain walker\<close>

lemma NextLabel_from_Cons:
  "xs \<noteq> [] \<Longrightarrow> NextLabel_from (c # xs) i q =
     (if c = CHR 0x5C then NextLabel_from xs (i + 1) (\<not> q)
      else if c = CHR ''.'' then (if q then NextLabel_from xs (i + 1) False else (i + 1, False))
      else NextLabel_from xs (i + 1) False)"
  by (cases xs) simp_all

lemma NextLabel_from_label:
  "label_text l \<Longrightarrow> rest \<noteq> [] \<Longrightarrow>
   NextLabel_from (l @ CHR ''.'' # rest) i False = (i + length l + 1, False)"
proof (induction l arbitrary: i rule: label_text.induct)
  case 1
  then show ?case by (simp add: NextLabel_from_Cons)
next
  case (2 c)
  then show ?case by (simp add: NextLabel_from_Cons)
next
  case (3 c c' cs)
  show ?case
  proof (cases "c = CHR 0x5C")
    case True
    with 3 have lt: "label_text cs" by simp
    have "NextLabel_from ((c # c' # cs) @ CHR ''.'' # rest) i False
        = NextLabel_from (cs @ CHR ''.'' # rest) (i + 2) False"
      using True by (simp add: NextLabel_from_Cons)
    also have "\<dots> = (i + 2 + length cs + 1, False)"
      using "3.IH"(1) [OF True lt "3.prems"(2)] .
    finally show ?thesis by simp
  next
    case False
    with 3 have lt: "label_text (c' # cs)" and nd: "c \<noteq> CHR ''.''" by simp_all
    have "NextLabel_from ((c # c' # cs) @ CHR ''.'' # rest) i False
        = NextLabel_from ((c' # cs) @ CHR ''.'' # rest) (i + 1) False"
      using False nd by simp
    also have "\<dots> = (i + 1 + length (c' # cs) + 1, False)"
      using "3.IH"(2) [OF False lt "3.prems"(2)] .
    finally show ?thesis by simp
  qed
qed

lemma NextLabel_from_last_label:
  "label_text l \<Longrightarrow> snd (NextLabel_from (l @ ''.'') i False)"
proof (induction l arbitrary: i rule: label_text.induct)
  case (3 c c' cs)
  show ?case
  proof (cases "c = CHR 0x5C")
    case True
    with 3 have lt: "label_text cs" by simp
    have "NextLabel_from ((c # c' # cs) @ ''.'') i False
        = NextLabel_from (cs @ ''.'') (i + 2) False"
      using True by (simp add: NextLabel_from_Cons)
    then show ?thesis using "3.IH"(1) [OF True lt] by simp
  next
    case False
    with 3 have lt: "label_text (c' # cs)" and nd: "c \<noteq> CHR ''.''" by simp_all
    have "NextLabel_from ((c # c' # cs) @ ''.'') i False
        = NextLabel_from ((c' # cs) @ ''.'') (i + 1) False"
      using False nd by simp
    then show ?thesis using "3.IH"(2) [OF False lt] by simp
  qed
qed simp_all

lemma fqdn_nonempty: "fqdn ls \<noteq> []"
  by (cases ls) (simp_all add: fqdn_def)

lemma getParentDomain_root: "getParentDomain ''.'' = ''.''"
  by (simp add: getParentDomain_def NextLabel_def)

lemma getParentDomain_label:
  assumes "label_text l" and "rest \<noteq> []"
  shows "getParentDomain (l @ ''.'' @ rest) = rest"
  using NextLabel_from_label [OF assms, of 0]
  by (simp add: getParentDomain_def NextLabel_def)

lemma getParentDomain_last_label:
  assumes "label_text l"
  shows "getParentDomain (l @ ''.'') = ''.''"
  using NextLabel_from_last_label [OF assms, of 0]
  by (cases "NextLabel_from (l @ ''.'') 0 False") (simp add: getParentDomain_def NextLabel_def)

lemma getParentDomain_fqdn:
  assumes "label_text l"
  shows "getParentDomain (fqdn (l # ls)) = fqdn ls"
proof (cases ls)
  case Nil
  then show ?thesis using getParentDomain_last_label [OF assms] by (simp add: fqdn_def)
next
  case (Cons a as)
  then have "fqdn (l # ls) = l @ ''.'' @ fqdn ls" by (simp add: fqdn_def)
  then show ?thesis using getParentDomain_label [OF assms fqdn_nonempty] by simp
qed

lemma parent_steps_root [simp]: "parent_steps ''.'' = 0"
  by (simp add: parent_steps.simps)

lemma parent_steps_nonroot:
  "d \<noteq> ''.'' \<Longrightarrow> parent_steps d = Suc (parent_steps (getParentDomain d))"
  by (simp add: parent_steps.simps [of d])

lemma NextLabel_from_shift:
  "NextLabel_from s (i + k) q = (fst (NextLabel_from s i q) + k, snd (NextLabel_from s i q))"
  by (induction s i q rule: NextLabel_from.induct) simp_all

lemma NextLabel_drop:
  "NextLabel s off = (fst (NextLabel (drop off s) 0) + off, snd (NextLabel (drop off s) 0))"
  using NextLabel_from_shift [of "drop off s" 0 off False] by (simp add: NextLabel_def)

lemma CountLabel_loop_drop:
  "CountLabel_loop s off = CountLabel_loop (drop off s) 0"
proof (induction "length s - off" arbitrary: s off rule: less_induct)
  case less
  obtain j fin where nl: "NextLabel (drop off s) 0 = (j, fin)" by (cases "NextLabel (drop off s) 0")
  then have nl': "NextLabel s off = (j + off, fin)" using NextLabel_drop [of s off] by simp
  show ?case
  proof (cases fin)
    case True
    with nl nl' show ?thesis by (simp add: CountLabel_loop.simps [of s off] CountLabel_loop.simps [of "drop off s" 0])
  next
    case False
    with nl have b: "0 < j" "j < length (drop off s)" using NextLabel_bounds [of "drop off s" 0 j] by auto
    have 1: "CountLabel_loop s (j + off) = CountLabel_loop (drop (j + off) s) 0"
      using b by (intro less) simp
    have 2: "CountLabel_loop (drop off s) j = CountLabel_loop (drop j (drop off s)) 0"
      using b by (intro less) simp
    from nl nl' False 1 2 show ?thesis
      by (simp add: CountLabel_loop.simps [of s off] CountLabel_loop.simps [of "drop off s" 0])
  qed
qed

lemma parent_steps_le_loop: "parent_steps d \<le> CountLabel_loop d 0"
proof (induction d rule: parent_steps.induct)
  case (1 d)
  show ?case
  proof (cases "d = ''.''")
    case True
    then show ?thesis by simp
  next
    case False
    obtain i fin where nl: "NextLabel d 0 = (i, fin)" by (cases "NextLabel d 0")
    show ?thesis
    proof (cases fin)
      case True
      with nl have "getParentDomain d = ''.''" by (simp add: getParentDomain_def)
      with False nl True show ?thesis
        by (simp add: CountLabel_loop.simps [of d 0] parent_steps_nonroot)
    next
      case nf: False
      with nl have p: "getParentDomain d = drop i d" by (simp add: getParentDomain_def)
      have "CountLabel_loop d 0 = 1 + CountLabel_loop d i"
        using nl nf by (simp add: CountLabel_loop.simps [of d 0])
      also have "CountLabel_loop d i = CountLabel_loop (drop i d) 0" by (rule CountLabel_loop_drop)
      finally show ?thesis using 1 [OF False] False p by (simp add: parent_steps_nonroot)
    qed
  qed
qed

lemma parent_steps_le_CountLabel: "parent_steps d \<le> CountLabel d"
  using parent_steps_le_loop [of d] by (simp add: CountLabel_def)

lemma parent_steps_reaches_root: "(getParentDomain ^^ parent_steps d) d = ''.''"
proof (induction d rule: parent_steps.induct)
  case (1 d)
  show ?case
  proof (cases "d = ''.''")
    case True
    then show ?thesis by simp
  next
    case False
    then have "parent_steps d = Suc (parent_steps (getParentDomain d))"
      by (simp add: parent_steps_nonroot)
    then show ?thesis using 1 [OF False] by (simp add: funpow_swap1)
  qed
qed

lemma validateChain_fuel_enough:
  "max 1 (parent_steps d) \<le> n \<Longrightarrow> validateChain_fuel n env d w = Some (validateChain env d w)"
proof (induction n arbitrary: d w)
  case 0
  then show ?case by simp
next
  case (Suc n)
  have rec: "validateChain_fuel n env (getParentDomain d) w' = Some (validateChain env (getParentDomain d) w')"
    if "getParentDomain d \<noteq> ''.''" for w'
  proof -
    from that have "d \<noteq> ''.''" using getParentDomain_root by auto
    then have "parent_steps d = Suc (parent_steps (getParentDomain d))"
      by (simp add: parent_steps_nonroot)
    moreover from that have "0 < parent_steps (getParentDomain d)"
      by (simp add: parent_steps_nonroot)
    ultimately have "max 1 (parent_steps (getParentDomain d)) \<le> n" using Suc.prems by simp
    then show ?thesis by (rule Suc.IH)
  qed
  show ?case
    by (simp add: validateChain.simps [of env d w] rec Let_def split: prod.splits res.splits option.splits)
qed


lemma fqdn_Cons_not_root: "l \<noteq> [] \<Longrightarrow> fqdn (l # ls) \<noteq> ''.''"
  by (cases l) (auto simp: fqdn_def)

lemma parent_steps_fqdn:
  "\<forall>l\<in>set ls. label_text l \<and> l \<noteq> [] \<Longrightarrow> parent_steps (fqdn ls) = length ls"
proof (induction ls)
  case Nil
  then show ?case by (simp add: fqdn_def)
next
  case (Cons l ls)
  then show ?case
    by (simp add: parent_steps_nonroot fqdn_Cons_not_root getParentDomain_fqdn)
qed

lemma CountLabel_fqdn:
  "\<forall>l\<in>set ls. label_text l \<and> l \<noteq> [] \<Longrightarrow> CountLabel (fqdn ls) = length ls"
proof (induction ls)
  case Nil
  then show ?case by (simp add: fqdn_def CountLabel_def)
next
  case (Cons l ls)
  then have l: "label_text l" "l \<noteq> []" by simp_all
  show ?case
  proof (cases ls)
    case Nil
    have "snd (NextLabel (l @ ''.'') 0)"
      using NextLabel_from_last_label [OF l(1), of 0] by (simp add: NextLabel_def)
    then have "CountLabel_loop (l @ ''.'') 0 = 1"
      by (cases "NextLabel (l @ ''.'') 0") (simp add: CountLabel_loop.simps [of "l @ ''.''" 0])
    with Nil l show ?thesis
      using fqdn_Cons_not_root [OF l(2), of "[]"] by (simp add: CountLabel_def fqdn_def)
  next
    case (Cons a as)
    then have f: "fqdn (l # ls) = l @ ''.'' @ fqdn ls" by (simp add: fqdn_def)
    have nl: "NextLabel (l @ ''.'' @ fqdn ls) 0 = (length l + 1, False)"
      using NextLabel_from_label [OF l(1) fqdn_nonempty, of ls 0] by (simp add: NextLabel_def)
    have "CountLabel_loop (l @ ''.'' @ fqdn ls) 0
        = 1 + CountLabel_loop (l @ ''.'' @ fqdn ls) (length l + 1)"
      by (subst CountLabel_loop.simps) (use nl in simp)
    also have "CountLabel_loop (l @ ''.'' @ fqdn ls) (length l + 1) = CountLabel_loop (fqdn ls) 0"
      by (subst CountLabel_loop_drop) simp
    also have "CountLabel_loop (fqdn ls) 0 = CountLabel (fqdn ls)"
      using Cons.prems Cons fqdn_Cons_not_root [of a as] by (simp add: CountLabel_def)
    finally show ?thesis
      using Cons.IH Cons.prems f fqdn_Cons_not_root [OF l(2), of ls] by (simp add: CountLabel_def)
  qed
qed

text \<open>
  Claim C4. For every name \<open>d\<close>, iterating \<open>getParentDomain\<close> reaches the root name in
  \<open>parent_steps d\<close> steps, which is strictly fewer than the label count of \<open>d\<close> (the
  labels that \<open>dns.CountLabel\<close> counts, and the root label). \<open>getParentDomain\<close> maps the
  root to itself and removes exactly the leftmost label of a fully qualified name; for
  the name with the non-empty labels \<open>ls\<close> the steps are \<open>length ls\<close> and the label count
  is one more. The loop of \<open>validateChain\<close> returns within \<open>label_count d\<close> iterations,
  whatever the validation of the zones answers.
\<close>

theorem getParentDomain_reaches_root:
  "parent_steps d < label_count d
   \<and> (getParentDomain ^^ parent_steps d) d = ''.''
   \<and> getParentDomain ''.'' = ''.''
   \<and> (label_text l \<longrightarrow> getParentDomain (fqdn (l # ls)) = fqdn ls)
   \<and> ((\<forall>l\<in>set ls. label_text l \<and> l \<noteq> []) \<longrightarrow>
        parent_steps (fqdn ls) = length ls \<and> label_count (fqdn ls) = length ls + 1)
   \<and> validateChain_fuel (label_count d) env d w = Some (validateChain env d w)"
proof -
  have steps: "parent_steps d < label_count d"
    using parent_steps_le_CountLabel [of d] by (simp add: label_count_def)
  then have "max 1 (parent_steps d) \<le> label_count d"
    by (simp add: label_count_def)
  then have "validateChain_fuel (label_count d) env d w = Some (validateChain env d w)"
    by (rule validateChain_fuel_enough)
  with steps show ?thesis
    by (simp add: parent_steps_reaches_root getParentDomain_root getParentDomain_fqdn
        parent_steps_fqdn CountLabel_fqdn label_count_def)
qed

theorem getParentDomain_reaches_root_witness:
  "parent_steps ''www.example.com.'' < label_count ''www.example.com.''
   \<and> label_text ''www''
   \<and> getParentDomain (fqdn [''www'', ''example'', ''com'']) = fqdn [''example'', ''com'']
   \<and> label_text ''example'' \<and> label_text ''com''
   \<and> parent_steps (fqdn [''example'', ''com'']) = 2
   \<and> label_count (fqdn [''example'', ''com'']) = 3"
  using getParentDomain_reaches_root [of "''www.example.com.''" "''www''" "[''example'', ''com'']"
      "fixture no_wire no_answers no_nss 0" "()"]
  by simp

section \<open>The signature verifier\<close>

lemma split_rrset_only_RRSIG:
  "\<forall>r\<in>set rrset. is_RRSIG r \<Longrightarrow> snd (split_rrset rrset sig cleanset) = cleanset"
  by (induction rrset sig cleanset rule: split_rrset.induct) simp_all

lemma validateRRSIG_keys_empty_cleanset:
  "validateRRSIG_keys env sig [] keys w = (Ret (False, empty_KeyInfo, None), w)"
proof (induction keys)
  case Nil
  show ?case by simp
next
  case (Cons k keys)
  then show ?case by (cases k) (simp_all add: RRSIG_Verify_def IsRRset_def)
qed

text \<open>
  Claim C6. For a record set without a record other than \<open>RRSIG\<close> (the empty set
  included) and for every key list, \<open>validateRRSIG\<close> returns \<open>(false, KeyInfo{})\<close> and a
  nil error; it reads no clock on the way.
\<close>

theorem validateRRSIG_no_signed_records:
  "\<forall>r\<in>set rrset. is_RRSIG r \<Longrightarrow>
   validateRRSIG env keys rrset w = (Ret (False, empty_KeyInfo, None), w)"
proof -
  assume a: "\<forall>r\<in>set rrset. is_RRSIG r"
  obtain sig cleanset where s: "split_rrset rrset None [] = (sig, cleanset)"
    by (cases "split_rrset rrset None []")
  with split_rrset_only_RRSIG [OF a, of None "[]"] have "cleanset = []" by simp
  with s show ?thesis
    by (simp add: validateRRSIG_def validateRRSIG_keys_empty_cleanset)
qed

theorem validateRRSIG_no_signed_records_witness:
  "is_RRSIG (RRSIG_RR sig1)
   \<and> validateRRSIG (fixture no_wire no_answers no_nss 1700000000)
      [DNSKEY_RR key1] [RRSIG_RR sig1] () = (Ret (False, empty_KeyInfo, None), ())"
  using validateRRSIG_no_signed_records [of "[RRSIG_RR sig1]"
      "fixture no_wire no_answers no_nss 1700000000" "[DNSKEY_RR key1]" "()"]
  by simp

lemma validateRRSIG_keys_no_valid_key:
  assumes "\<forall>key. DNSKEY_RR key \<in> set keys \<and> RRSIG_Verify env (Some rr) key cleanset = Ret True
     \<longrightarrow> (\<forall>w t w'. Now env w = (t, w') \<longrightarrow> \<not> fst (ValidityPeriod env rr t w'))"
  shows "fst (validateRRSIG_keys env (Some rr) cleanset keys w) = Ret (False, empty_KeyInfo, None)"
  using assms
proof (induction keys arbitrary: w)
  case Nil
  show ?case by simp
next
  case (Cons k keys)
  have "\<forall>key. DNSKEY_RR key \<in> set keys \<and> RRSIG_Verify env (Some rr) key cleanset = Ret True
     \<longrightarrow> (\<forall>w t w'. Now env w = (t, w') \<longrightarrow> \<not> fst (ValidityPeriod env rr t w'))"
    using Cons.prems by auto
  then have IH: "\<And>w. fst (validateRRSIG_keys env (Some rr) cleanset keys w) = Ret (False, empty_KeyInfo, None)"
    by (rule Cons.IH)
  show ?case
  proof (cases k)
    case (DNSKEY_RR key)
    show ?thesis
    proof (cases "RRSIG_Verify env (Some rr) key cleanset = Ret True")
      case True
      obtain tt w1 where ev: "explicitValid env rr w = (tt, w1)" by (cases "explicitValid env rr w")
      obtain t w2 where now: "Now env w1 = (t, w2)" by (cases "Now env w1")
      obtain valid w3 where vp: "ValidityPeriod env rr t w2 = (valid, w3)"
        by (cases "ValidityPeriod env rr t w2")
      from Cons.prems DNSKEY_RR True now have "\<not> fst (ValidityPeriod env rr t w2)" by auto
      with vp have "\<not> valid" by simp
      with DNSKEY_RR True ev now vp IH show ?thesis by (simp split: prod.splits)
    next
      case False
      with DNSKEY_RR IH show ?thesis
        by (cases "RRSIG_Verify env (Some rr) key cleanset")
          (auto simp: RRSIG_Verify_def split: bool.splits if_splits)
    qed
  qed (simp_all add: IH)
qed

lemma validateRRSIG_keys_result:
  "fst (validateRRSIG_keys env sig cleanset keys w) = Ret (v, info, err) \<Longrightarrow>
   err = None \<and> (\<not> v \<longrightarrow> info = empty_KeyInfo)"
proof (induction keys arbitrary: w)
  case Nil
  then show ?case by simp
next
  case (Cons k keys)
  then show ?case
    by (cases k) (auto split: prod.splits res.splits bool.splits option.splits if_splits)
qed

text \<open>
  Claim C9. A key that verifies the signature while the time read lies outside the
  signature's validity period does not end \<open>validateRRSIG\<close>: the loop goes on with the
  remaining keys. When no key both verifies the signature and finds the time inside the
  period, the result is \<open>(false, KeyInfo{})\<close> with a nil error; and whatever
  \<open>validateRRSIG\<close> returns, the error is nil and a false result carries the empty
  \<open>KeyInfo\<close>.
\<close>

theorem validateRRSIG_stale_window_continues:
  "(RRSIG_Verify env (Some rr) key cleanset = Ret True \<and> explicitValid env rr w = (tt, w1)
      \<and> Now env w1 = (t, w2) \<and> ValidityPeriod env rr t w2 = (False, w3)
     \<longrightarrow> validateRRSIG_keys env (Some rr) cleanset (DNSKEY_RR key # keys) w
         = validateRRSIG_keys env (Some rr) cleanset keys w3)
   \<and> (split_rrset rrset None [] = (Some rr, cleanset)
      \<and> (\<forall>key. DNSKEY_RR key \<in> set keys \<and> RRSIG_Verify env (Some rr) key cleanset = Ret True
            \<longrightarrow> (\<forall>w t w'. Now env w = (t, w') \<longrightarrow> \<not> fst (ValidityPeriod env rr t w')))
     \<longrightarrow> fst (validateRRSIG env keys rrset w) = Ret (False, empty_KeyInfo, None))
   \<and> (fst (validateRRSIG env keys rrset w) = Ret (v, info, err)
     \<longrightarrow> err = None \<and> (\<not> v \<longrightarrow> info = empty_KeyInfo))"
proof (intro conjI impI)
  assume "RRSIG_Verify env (Some rr) key cleanset = Ret True \<and> explicitValid env rr w = (tt, w1)
      \<and> Now env w1 = (t, w2) \<and> ValidityPeriod env rr t w2 = (False, w3)"
  then show "validateRRSIG_keys env (Some rr) cleanset (DNSKEY_RR key # keys) w
         = validateRRSIG_keys env (Some rr) cleanset keys w3"
    by (cases tt) simp
next
  assume a: "split_rrset rrset None [] = (Some rr, cleanset)
      \<and> (\<forall>key. DNSKEY_RR key \<in> set keys \<and> RRSIG_Verify env (Some rr) key cleanset = Ret True
            \<longrightarrow> (\<forall>w t w'. Now env w = (t, w') \<longrightarrow> \<not> fst (ValidityPeriod env rr t w')))"
  then have "rrset \<noteq> []" by auto
  with a show "fst (validateRRSIG env keys rrset w) = Ret (False, empty_KeyInfo, None)"
    using validateRRSIG_keys_no_valid_key [of keys env rr cleanset w]
    by (simp add: validateRRSIG_def)
next
  assume a: "fst (validateRRSIG env keys rrset w) = Ret (v, info, err)"
  show "err = None"
    using a validateRRSIG_keys_result [of env _ _ keys w v info err]
    by (auto simp: validateRRSIG_def split: if_splits prod.splits)
  assume "\<not> v"
  then show "info = empty_KeyInfo"
    using a validateRRSIG_keys_result [of env _ _ keys w v info err]
    by (auto simp: validateRRSIG_def split: if_splits prod.splits)
qed

lemma fixture_stale:
  "Now (fixture no_wire no_answers no_nss 1900000000) w = (t, w') \<Longrightarrow>
   \<not> fst (ValidityPeriod (fixture no_wire no_answers no_nss 1900000000) sig1 t w')"
  by (auto simp: fixture_def ValidityPeriod_def IsZero_def sig1_def int64_def year68_def
      signed_divide_int_def)

theorem validateRRSIG_stale_window_continues_witness:
  "RRSIG_Verify (fixture no_wire no_answers no_nss 1900000000) (Some sig1) key1
      [DNSKEY_RR key1, DNSKEY_RR key2] = Ret True
   \<and> ValidityPeriod (fixture no_wire no_answers no_nss 1900000000) sig1 (Time 1900000000 0) ()
      = (False, ())
   \<and> validateRRSIG_keys (fixture no_wire no_answers no_nss 1900000000) (Some sig1)
        [DNSKEY_RR key1, DNSKEY_RR key2] [DNSKEY_RR key1, DNSKEY_RR key2] ()
      = validateRRSIG_keys (fixture no_wire no_answers no_nss 1900000000) (Some sig1)
        [DNSKEY_RR key1, DNSKEY_RR key2] [DNSKEY_RR key2] ()
   \<and> fst (validateRRSIG (fixture no_wire no_answers no_nss 1900000000)
        [DNSKEY_RR key1, DNSKEY_RR key2] [DNSKEY_RR key1, DNSKEY_RR key2, RRSIG_RR sig1] ())
      = Ret (False, empty_KeyInfo, None)"
proof -
  let ?fx = "fixture no_wire no_answers no_nss 1900000000"
  let ?cs = "[DNSKEY_RR key1, DNSKEY_RR key2]"
  obtain tt where ev: "explicitValid ?fx sig1 () = (tt, ())" by (cases "explicitValid ?fx sig1 ()") simp
  have v: "RRSIG_Verify ?fx (Some sig1) key1 ?cs = Ret True"
    by (simp add: RRSIG_Verify_def IsRRset_def fixture_def key1_def key2_def sig1_def
        RR_Header.truncate_def)
  have now: "Now ?fx () = (Time 1900000000 0, ())" by (simp add: fixture_def)
  have vp: "ValidityPeriod ?fx sig1 (Time 1900000000 0) () = (False, ())"
    using fixture_stale [OF now] by (cases "ValidityPeriod ?fx sig1 (Time 1900000000 0) ()") simp
  have sp: "split_rrset [DNSKEY_RR key1, DNSKEY_RR key2, RRSIG_RR sig1] None [] = (Some sig1, ?cs)"
    by simp
  from validateRRSIG_stale_window_continues [of ?fx sig1 key1 ?cs "()" tt "()" "Time 1900000000 0"
      "()" "()" "[DNSKEY_RR key2]"]
    v ev now vp
  have 1: "validateRRSIG_keys ?fx (Some sig1) ?cs [DNSKEY_RR key1, DNSKEY_RR key2] ()
      = validateRRSIG_keys ?fx (Some sig1) ?cs [DNSKEY_RR key2] ()" by blast
  from validateRRSIG_stale_window_continues [of ?fx sig1 key1 ?cs "()" tt "()" "Time 1900000000 0"
      "()" "()" ?cs "[DNSKEY_RR key1, DNSKEY_RR key2, RRSIG_RR sig1]"]
    sp fixture_stale
  have 2: "fst (validateRRSIG ?fx ?cs [DNSKEY_RR key1, DNSKEY_RR key2, RRSIG_RR sig1] ())
      = Ret (False, empty_KeyInfo, None)" by blast
  from v vp 1 2 show ?thesis by simp
qed

lemma split_rrset_no_RRSIG:
  "\<forall>r\<in>set rrset. \<not> is_RRSIG r \<Longrightarrow> split_rrset rrset sig cleanset = (sig, cleanset @ rrset)"
  by (induction rrset sig cleanset rule: split_rrset.induct) simp_all

lemma split_rrset_some_RRSIG:
  "(\<exists>r\<in>set rrset. is_RRSIG r) \<or> sig \<noteq> None \<Longrightarrow> fst (split_rrset rrset sig cleanset) \<noteq> None"
  by (induction rrset sig cleanset rule: split_rrset.induct) simp_all

lemma validateRRSIG_keys_nil_sig:
  "IsRRset cleanset \<Longrightarrow> \<exists>k\<in>set keys. is_DNSKEY k \<Longrightarrow>
   fst (validateRRSIG_keys env None cleanset keys w) = Panic"
  by (induction env "None :: RRSIG option" cleanset keys w rule: validateRRSIG_keys.induct)
    (simp_all add: RRSIG_Verify_def)

lemma validateRRSIG_keys_sig:
  "fst (validateRRSIG_keys env (Some rr) cleanset keys w) \<noteq> Panic"
  by (induction env "Some rr" cleanset keys w rule: validateRRSIG_keys.induct)
    (auto simp: RRSIG_Verify_def empty_KeyInfo_def split: prod.splits if_splits bool.splits res.splits)

lemma validateRRSIG_keys_nil_sig_Panic:
  "fst (validateRRSIG_keys env None cleanset keys w) = Panic \<Longrightarrow>
   IsRRset cleanset \<and> (\<exists>k\<in>set keys. is_DNSKEY k)"
proof (induction keys)
  case Nil
  then show ?case by simp
next
  case (Cons k keys)
  then show ?case by (cases k) (auto simp: RRSIG_Verify_def split: if_splits)
qed

lemma validateRRSIG_Panic_iff:
  "fst (validateRRSIG env keys rrset w) = Panic \<longleftrightarrow>
   (\<forall>r\<in>set rrset. \<not> is_RRSIG r) \<and> IsRRset rrset \<and> (\<exists>k\<in>set keys. is_DNSKEY k)"
proof (cases "\<exists>r\<in>set rrset. is_RRSIG r")
  case True
  then have ne: "rrset \<noteq> []" by auto
  from True obtain rr cleanset where "split_rrset rrset None [] = (Some rr, cleanset)"
    using split_rrset_some_RRSIG [of rrset None "[]"]
    by (cases "split_rrset rrset None []") auto
  with ne True show ?thesis by (auto simp: validateRRSIG_def validateRRSIG_keys_sig)
next
  case False
  then have s: "split_rrset rrset None [] = (None, rrset)"
    using split_rrset_no_RRSIG [of rrset None "[]"] by simp
  show ?thesis
  proof (cases "rrset = []")
    case True
    then show ?thesis by (simp add: validateRRSIG_def IsRRset_def)
  next
    case ne: False
    with s False show ?thesis
      using validateRRSIG_keys_nil_sig [of rrset keys env w]
        validateRRSIG_keys_nil_sig_Panic [of env rrset keys w]
      by (auto simp: validateRRSIG_def)
  qed
qed

text \<open>
  Claim C10. \<open>validateRRSIG\<close> is not total: there is an input with a record other than
  \<open>RRSIG\<close>, no \<open>RRSIG\<close> and a \<open>DNSKEY\<close> among the keys on which it panics, the
  signature pointer being nil when \<open>sig.Verify\<close> reads it. It panics exactly when the
  record set has no \<open>RRSIG\<close>, is an RRset and the keys hold a \<open>DNSKEY\<close>; with an
  \<open>RRSIG\<close> in the record set it never does.
\<close>

theorem validateRRSIG_nil_signature:
  "(\<exists>keys rrset. (\<exists>r\<in>set rrset. \<not> is_RRSIG r) \<and> (\<forall>r\<in>set rrset. \<not> is_RRSIG r)
       \<and> (\<exists>k\<in>set keys. is_DNSKEY k)
       \<and> (\<forall>(env :: 'w env) w. fst (validateRRSIG env keys rrset w) = Panic))
   \<and> (fst (validateRRSIG env keys rrset w) = Panic \<longleftrightarrow>
        (\<forall>r\<in>set rrset. \<not> is_RRSIG r) \<and> IsRRset rrset \<and> (\<exists>k\<in>set keys. is_DNSKEY k))
   \<and> ((\<exists>r\<in>set rrset. is_RRSIG r) \<longrightarrow> fst (validateRRSIG env keys rrset w) \<noteq> Panic)"
proof -
  have "\<forall>(env :: 'w env) w. fst (validateRRSIG env [DNSKEY_RR key1] [DNSKEY_RR key1] w) = Panic"
    by (simp add: validateRRSIG_Panic_iff IsRRset_def)
  then have "\<exists>keys rrset. (\<exists>r\<in>set rrset. \<not> is_RRSIG r) \<and> (\<forall>r\<in>set rrset. \<not> is_RRSIG r)
       \<and> (\<exists>k\<in>set keys. is_DNSKEY k)
       \<and> (\<forall>(env :: 'w env) w. fst (validateRRSIG env keys rrset w) = Panic)"
    by (intro exI [of _ "[DNSKEY_RR key1]"]) simp
  then show ?thesis
    using validateRRSIG_Panic_iff [of env keys rrset w] by blast
qed

theorem validateRRSIG_nil_signature_witness:
  "fst (validateRRSIG (fixture no_wire no_answers no_nss 1700000000)
      [DNSKEY_RR key1] [DNSKEY_RR key1] ()) = Panic
   \<and> is_RRSIG (RRSIG_RR sig1)
   \<and> fst (validateRRSIG (fixture no_wire no_answers no_nss 1700000000)
      [DNSKEY_RR key1] [DNSKEY_RR key1, RRSIG_RR sig1] ()) \<noteq> Panic"
  using validateRRSIG_nil_signature [of "fixture no_wire no_answers no_nss 1700000000"
      "[DNSKEY_RR key1]" "[DNSKEY_RR key1]" "()"]
    validateRRSIG_nil_signature [of "fixture no_wire no_answers no_nss 1700000000"
      "[DNSKEY_RR key1]" "[DNSKEY_RR key1, RRSIG_RR sig1]" "()"]
  by (auto simp: IsRRset_def)

text \<open>
  Claim C2, at a concrete input. The clock stands at 1700000000, the signature has the
  inception 1600000000 and the expiration \<open>2^32 - 1\<close>, and \<open>key1\<close> verifies it.
  \<open>validateRRSIG\<close> succeeds and returns the end 6442450943, which is \<open>2^31\<close> seconds
  past the expiration and more than \<open>2^31\<close> seconds from the clock: \<open>explicitValid\<close>
  adds the quotient of the distance by \<open>2^31\<close>, times \<open>2^31\<close>, where subtracting it
  would bring the number to the clock.
\<close>

theorem explicitValid_end_far_from_now:
  "validateRRSIG (fixture no_wire no_answers no_nss 1700000000)
      [DNSKEY_RR key1] [DNSKEY_RR key1, RRSIG_RR sig2] ()
     = (Ret (True, \<lparr>Start = 1600000000, End = 6442450943\<rparr>, None), ())
   \<and> \<not> \<bar>6442450943 - 1700000000\<bar> < (2 :: int) ^ 31"
  by code_simp

section \<open>NS discovery\<close>

lemma queryRRset_ok:
  "queryRRset env q qtype server sec w = ((rrset, rtt, None), w') \<Longrightarrow> rrset \<noteq> []"
  by (auto simp: queryRRset_def Let_def split: prod.splits sum.splits if_splits)

lemma queryRRset_err:
  "queryRRset env q qtype server sec w = ((rrset, rtt, Some e), w') \<Longrightarrow> rrset = []"
  by (auto simp: queryRRset_def Let_def split: prod.splits sum.splits if_splits)

lemma findNS_loop_length:
  "findNS_loop env rrset nsinfos w = (Ret nsinfos', w') \<Longrightarrow>
   length nsinfos' = length nsinfos + length rrset"
proof (induction rrset arbitrary: nsinfos w)
  case Nil
  then show ?case by simp
next
  case (Cons rr rrset)
  then show ?case by (cases rr) (auto simp: Let_def split: prod.splits)
qed

text \<open>
  Claim C8, as stated, fails where the NS query fails at the transport layer: \<open>findNS\<close>
  returns the empty list with a nil error.
\<close>

theorem findNS_transport_failure_counterexample:
  "query (fixture no_wire no_answers no_nss 0) ''example.test.'' TypeNS resolver False ()
     = (Inl (TransportError ''i/o timeout''), ())
   \<and> findNS (fixture no_wire no_answers no_nss 0) ''example.test.'' () = (Ret ([], None), ())"
  by code_simp

text \<open>
  Claim C8, amended. Whenever \<open>findNS\<close> returns, its error is nil; the list it returns
  is empty exactly when the NS query failed (at the transport layer, or for want of an
  NS record in the answer). So an empty list always comes with a nil error, and
  \<open>NoNameservers\<close> is never reported.
\<close>

theorem findNS_empty_without_error:
  "fst (findNS env domain w) = Ret (nsinfos, err) \<Longrightarrow>
   err = None \<and>
   (nsinfos = [] \<longleftrightarrow> snd (snd (fst (queryRRset env domain TypeNS resolver False w))) \<noteq> None)"
proof -
  assume a: "fst (findNS env domain w) = Ret (nsinfos, err)"
  obtain rrset rtt qerr w1 where q: "queryRRset env domain TypeNS resolver False w = ((rrset, rtt, qerr), w1)"
    by (cases "queryRRset env domain TypeNS resolver False w") auto
  show ?thesis
  proof (cases qerr)
    case (Some e)
    with a q show ?thesis by (simp add: findNS_def)
  next
    case None
    with q have ne: "rrset \<noteq> []" by (auto dest: queryRRset_ok)
    obtain r w2 where l: "findNS_loop env rrset [] w1 = (r, w2)" by (cases "findNS_loop env rrset [] w1")
    show ?thesis
    proof (cases r)
      case Panic
      with a q None l show ?thesis by (simp add: findNS_def)
    next
      case (Ret ns)
      with l have "length ns = length rrset" using findNS_loop_length [of env rrset "[]" w1 ns w2] by simp
      with ne have "ns \<noteq> []" by auto
      with a q None l Ret show ?thesis by (auto simp: findNS_def)
    qed
  qed
qed

theorem findNS_empty_without_error_witness:
  "fst (findNS (fixture no_wire no_answers no_nss 0) ''example.test.'' ()) = Ret ([], None)
   \<and> snd (snd (fst (queryRRset (fixture no_wire no_answers no_nss 0) ''example.test.'' TypeNS resolver False ()))) \<noteq> None
   \<and> fst (findNS (fixture wire1 no_answers no_nss 0) ''example.test.'' ())
      = Ret ([\<lparr>NSInfo_Name = ''ns1.example.test.'', IP = [''192.0.2.1'']\<rparr>], None)"
proof -
  have 1: "fst (findNS (fixture no_wire no_answers no_nss 0) ''example.test.'' ()) = Ret ([], None)"
    by code_simp
  have 2: "fst (findNS (fixture wire1 no_answers no_nss 0) ''example.test.'' ())
      = Ret ([\<lparr>NSInfo_Name = ''ns1.example.test.'', IP = [''192.0.2.1'']\<rparr>], None)"
    by code_simp
  from findNS_empty_without_error [OF 1] findNS_empty_without_error [OF 2] 1 2
  show ?thesis by simp
qed

section \<open>The DS phase\<close>

lemma validateParentDS_answer_skip:
  "\<forall>ds. DS_RR ds \<in> set answer \<and> keyMap (DS_KeyTag ds) \<noteq> None \<longrightarrow> DigestType ds = 3 \<Longrightarrow>
   validateParentDS_answer env keyMap answer found = Inr found"
proof (induction answer)
  case Nil
  show ?case by simp
next
  case (Cons a answer)
  then show ?case by (cases a) (auto split: option.splits)
qed

lemma validateParentDS_answer_mismatch:
  "DS_RR ds \<in> set answer \<Longrightarrow> keyMap (DS_KeyTag ds) = Some key \<Longrightarrow> DigestType ds \<noteq> 3 \<Longrightarrow>
   ToDS env key (DigestType ds) = Some childDS \<Longrightarrow> Digest ds \<noteq> Digest childDS \<Longrightarrow>
   validateParentDS_answer env keyMap answer found = Inl (False, None)"
proof (induction answer arbitrary: found)
  case Nil
  then show ?case by simp
next
  case (Cons a answer)
  then show ?case by (cases a) (auto split: option.splits)
qed

lemma validateParentDS_ips_skip:
  assumes "\<forall>nsip w res w'. scan_query env domain TypeDS nsip True w = ((res, None), w') \<longrightarrow>
     (\<exists>m. Response_Msg res = Some m \<and> Answer m \<noteq> [] \<and>
        (\<forall>ds. DS_RR ds \<in> set (Answer m) \<and> keyMap (DS_KeyTag ds) \<noteq> None \<longrightarrow> DigestType ds = 3))"
  shows "fst (validateParentDS_ips env domain keyMap ips found w) = Ret (Inr found)"
proof (induction ips arbitrary: w)
  case Nil
  show ?case by simp
next
  case (Cons nsip ips)
  obtain res err w1 where q: "scan_query env domain TypeDS nsip True w = ((res, err), w1)"
    by (cases "scan_query env domain TypeDS nsip True w") auto
  show ?case
  proof (cases err)
    case (Some e)
    with q show ?thesis by simp
  next
    case None
    with q assms obtain m where m: "Response_Msg res = Some m" "Answer m \<noteq> []"
      "\<forall>ds. DS_RR ds \<in> set (Answer m) \<and> keyMap (DS_KeyTag ds) \<noteq> None \<longrightarrow> DigestType ds = 3"
      by blast
    from m(3) have "validateParentDS_answer env keyMap (Answer m) found = Inr found"
      by (rule validateParentDS_answer_skip)
    with q None m(1,2) Cons.IH [of w1] show ?thesis by simp
  qed
qed

lemma validateParentDS_nss_skip:
  assumes "\<forall>nsip w res w'. scan_query env domain TypeDS nsip True w = ((res, None), w') \<longrightarrow>
     (\<exists>m. Response_Msg res = Some m \<and> Answer m \<noteq> [] \<and>
        (\<forall>ds. DS_RR ds \<in> set (Answer m) \<and> keyMap (DS_KeyTag ds) \<noteq> None \<longrightarrow> DigestType ds = 3))"
  shows "fst (validateParentDS_nss env domain keyMap nsdata found w) = Ret (Inr found)"
proof (induction nsdata arbitrary: w)
  case Nil
  show ?case by simp
next
  case (Cons ns nsdata)
  obtain r w1 where i: "validateParentDS_ips env domain keyMap (IP ns) found w = (r, w1)"
    by (cases "validateParentDS_ips env domain keyMap (IP ns) found w")
  with validateParentDS_ips_skip [OF assms, of "IP ns" found w] have "r = Ret (Inr found)" by simp
  with i Cons.IH [of w1] show ?case by simp
qed

lemma validateParentDS_skip:
  assumes "\<forall>nsip w res w'. scan_query env domain TypeDS nsip True w = ((res, None), w') \<longrightarrow>
     (\<exists>m. Response_Msg res = Some m \<and> Answer m \<noteq> [] \<and>
        (\<forall>ds. DS_RR ds \<in> set (Answer m) \<and> keyMap (DS_KeyTag ds) \<noteq> None \<longrightarrow> DigestType ds = 3))"
  shows "fst (validateParentDS env domain keyMap w)
     = Ret (False, Some (NoMatchingKeyTag domain (getParentDomain domain)))"
proof -
  obtain nsdata err w1 where f: "FindNS env (getParentDomain domain) w = ((nsdata, err), w1)"
    by (cases "FindNS env (getParentDomain domain) w") auto
  obtain r w2 where n: "validateParentDS_nss env domain keyMap nsdata False w1 = (r, w2)"
    by (cases "validateParentDS_nss env domain keyMap nsdata False w1")
  with validateParentDS_nss_skip [OF assms, of nsdata False w1] have "r = Ret (Inr False)" by simp
  with f n show ?thesis by (simp add: validateParentDS_def)
qed

text \<open>
  Claim C5. In the DS phase a \<open>DS\<close> record of digest type 3 is skipped: the loop goes on
  with the next record and \<open>foundKeyTag\<close> as it was, so the record counts neither as a
  match nor as a mismatch. Consequently, when the DNSKEY phase of a zone has passed with
  the key map \<open>keyMap\<close>, and every answer to the \<open>DS\<close> query holds records and, among
  those whose key tag is in the key map, only records of digest type 3, \<open>validateDomain\<close>
  returns false with \<open>NoMatchingKeyTag\<close> (and not the nil error of a digest mismatch).
\<close>

theorem validateParentDS_skips_GOST:
  "(DigestType ds = 3 \<longrightarrow>
      validateParentDS_answer env keyMap (DS_RR ds # answer) found
        = validateParentDS_answer env keyMap answer found)
   \<and> (FindNS env domain w = ((nsdata, err), w1)
      \<and> validateDomain_nss env domain nsdata Map.empty w1 = (Ret (Inr keyMap), w2)
      \<and> (\<forall>nsip w res w'. scan_query env domain TypeDS nsip True w = ((res, None), w') \<longrightarrow>
           (\<exists>m. Response_Msg res = Some m \<and> Answer m \<noteq> [] \<and>
              (\<forall>ds. DS_RR ds \<in> set (Answer m) \<and> keyMap (DS_KeyTag ds) \<noteq> None
                 \<longrightarrow> DigestType ds = 3)))
     \<longrightarrow> fst (validateDomain env domain w)
         = Ret (False, Some (NoMatchingKeyTag domain (getParentDomain domain))))"
proof (intro conjI impI)
  assume "DigestType ds = 3"
  then show "validateParentDS_answer env keyMap (DS_RR ds # answer) found
        = validateParentDS_answer env keyMap answer found"
    by (simp split: option.splits)
next
  assume a: "FindNS env domain w = ((nsdata, err), w1)
      \<and> validateDomain_nss env domain nsdata Map.empty w1 = (Ret (Inr keyMap), w2)
      \<and> (\<forall>nsip w res w'. scan_query env domain TypeDS nsip True w = ((res, None), w') \<longrightarrow>
           (\<exists>m. Response_Msg res = Some m \<and> Answer m \<noteq> [] \<and>
              (\<forall>ds. DS_RR ds \<in> set (Answer m) \<and> keyMap (DS_KeyTag ds) \<noteq> None
                 \<longrightarrow> DigestType ds = 3)))"
  then have h: "\<forall>nsip w res w'. scan_query env domain TypeDS nsip True w = ((res, None), w') \<longrightarrow>
           (\<exists>m. Response_Msg res = Some m \<and> Answer m \<noteq> [] \<and>
              (\<forall>ds. DS_RR ds \<in> set (Answer m) \<and> keyMap (DS_KeyTag ds) \<noteq> None
                 \<longrightarrow> DigestType ds = 3))" by simp
  obtain x w3 where f: "FindNS env (getParentDomain domain) w2 = (x, w3)"
    by (cases "FindNS env (getParentDomain domain) w2")
  from a f validateParentDS_skip [OF h, of w3]
  show "fst (validateDomain env domain w)
         = Ret (False, Some (NoMatchingKeyTag domain (getParentDomain domain)))"
    by (simp add: validateDomain_def)
qed

theorem validateParentDS_skips_GOST_witness:
  "DigestType ds_gost = 3
   \<and> validateParentDS_answer (zone [''192.0.2.1''] signed_keys [DS_RR ds_gost])
        (Map.empty(4 \<mapsto> key1)) [DS_RR ds_gost] False
      = validateParentDS_answer (zone [''192.0.2.1''] signed_keys [DS_RR ds_gost])
        (Map.empty(4 \<mapsto> key1)) [] False
   \<and> fst (validateDomain (zone [''192.0.2.1''] signed_keys [DS_RR ds_gost]) ''example.test.'' ())
      = Ret (False, Some (NoMatchingKeyTag ''example.test.'' ''test.''))"
proof -
  let ?Z = "zone [''192.0.2.1''] signed_keys [DS_RR ds_gost]"
  let ?ns = "[\<lparr>NSInfo_Name = ''ns.example.test.'', IP = [''192.0.2.1'']\<rparr>]"
  have g: "DigestType ds_gost = 3" by (simp add: ds_gost_def)
  have p: "getParentDomain ''example.test.'' = ''test.''" by code_simp
  have f: "FindNS ?Z ''example.test.'' () = ((?ns, None), ())"
    by (simp add: zone_def fixture_def zone_nss_def)
  have "case validateDomain_nss ?Z ''example.test.'' ?ns Map.empty () of
          (Ret (Inr km), w) \<Rightarrow> True | _ \<Rightarrow> False"
    by code_simp
  then obtain km where n: "validateDomain_nss ?Z ''example.test.'' ?ns Map.empty () = (Ret (Inr km), ())"
    by (auto split: prod.splits res.splits sum.splits)
  have h: "\<forall>nsip w res w'. scan_query ?Z ''example.test.'' TypeDS nsip True w = ((res, None), w') \<longrightarrow>
           (\<exists>m. Response_Msg res = Some m \<and> Answer m \<noteq> [] \<and>
              (\<forall>ds. DS_RR ds \<in> set (Answer m) \<and> km (DS_KeyTag ds) \<noteq> None
                 \<longrightarrow> DigestType ds = 3))"
    by (auto simp: zone_def fixture_def zone_answers_def reply_def no_answers_def ds_gost_def
        TypeDS_def TypeDNSKEY_def)
  from validateParentDS_skips_GOST [of ds_gost ?Z "Map.empty(4 \<mapsto> key1)" "[]" False]
    validateParentDS_skips_GOST [of ds_gost ?Z km "[]" False "''example.test.''" "()" ?ns None "()" "()"]
    g f n h p
  show ?thesis by simp
qed

lemma validateParentDS_answer_Inl:
  "validateParentDS_answer env keyMap answer found = Inl r \<Longrightarrow> r = (False, None)"
proof (induction answer arbitrary: found)
  case Nil
  then show ?case by simp
next
  case (Cons a answer)
  then show ?case by (cases a) (auto split: option.splits if_splits)
qed

lemma validateParentDS_ips_outcomes:
  "fst (validateParentDS_ips env domain keyMap ips found w)
     \<in> {Panic, Ret (Inl (False, None))} \<union> {Ret (Inr f) | f. True}
       \<union> {Ret (Inl (False, Some (NoDS domain nsip))) | nsip. True}"
proof (induction ips arbitrary: found w)
  case Nil
  show ?case by simp
next
  case (Cons nsip ips)
  obtain res err w1 where q: "scan_query env domain TypeDS nsip True w = ((res, err), w1)"
    by (cases "scan_query env domain TypeDS nsip True w") auto
  show ?case
  proof (cases err)
    case (Some e)
    with q show ?thesis by simp
  next
    case None
    show ?thesis
    proof (cases "Response_Msg res")
      case n: None
      with q None show ?thesis by simp
    next
      case (Some m)
      show ?thesis
      proof (cases "validateParentDS_answer env keyMap (Answer m) found")
        case (Inl r)
        with validateParentDS_answer_Inl [OF Inl] q None Some show ?thesis by auto
      next
        case (Inr f)
        with q None Some Cons.IH [of f w1] show ?thesis by auto
      qed
    qed
  qed
qed

lemma validateParentDS_ips_answered:
  assumes "\<forall>nsip w res w'. scan_query env domain TypeDS nsip True w = ((res, None), w') \<longrightarrow>
     (\<exists>m. Response_Msg res = Some m \<and> Answer m \<noteq> [])"
  shows "fst (validateParentDS_ips env domain keyMap ips found w)
     \<in> {Ret (Inl (False, None))} \<union> {Ret (Inr f) | f. True}"
proof (induction ips arbitrary: found w)
  case Nil
  show ?case by simp
next
  case (Cons nsip ips)
  obtain res err w1 where q: "scan_query env domain TypeDS nsip True w = ((res, err), w1)"
    by (cases "scan_query env domain TypeDS nsip True w") auto
  show ?case
  proof (cases err)
    case (Some e)
    with q show ?thesis by simp
  next
    case None
    with q assms obtain m where m: "Response_Msg res = Some m" "Answer m \<noteq> []" by blast
    show ?thesis
    proof (cases "validateParentDS_answer env keyMap (Answer m) found")
      case (Inl r)
      with validateParentDS_answer_Inl [OF Inl] q None m show ?thesis by auto
    next
      case (Inr f)
      with q None m Cons.IH [of f w1] show ?thesis by auto
    qed
  qed
qed

lemma validateParentDS_ips_reaches_mismatch:
  assumes h: "\<forall>w. \<exists>res w' m ds key childDS.
       scan_query env domain TypeDS nsipB True w = ((res, None), w') \<and> Response_Msg res = Some m
       \<and> DS_RR ds \<in> set (Answer m) \<and> keyMap (DS_KeyTag ds) = Some key \<and> DigestType ds \<noteq> 3
       \<and> ToDS env key (DigestType ds) = Some childDS \<and> Digest ds \<noteq> Digest childDS"
  shows "\<forall>ip\<in>set pre. \<forall>w. \<exists>res w'. scan_query env domain TypeDS ip True w = ((res, None), w') \<Longrightarrow>
     fst (validateParentDS_ips env domain keyMap (pre @ nsipB # post) found w) \<noteq> Ret (Inr f)"
proof (induction pre arbitrary: found w)
  case Nil
  from h obtain res w' m ds key childDS where
    q: "scan_query env domain TypeDS nsipB True w = ((res, None), w')" "Response_Msg res = Some m"
    and d: "DS_RR ds \<in> set (Answer m)" "keyMap (DS_KeyTag ds) = Some key" "DigestType ds \<noteq> 3"
      "ToDS env key (DigestType ds) = Some childDS" "Digest ds \<noteq> Digest childDS"
    by blast
  from d have "validateParentDS_answer env keyMap (Answer m) found = Inl (False, None)"
    by (rule validateParentDS_answer_mismatch)
  moreover from d(1) have "Answer m \<noteq> []" by auto
  ultimately show ?case using q by simp
next
  case (Cons ip pre)
  from Cons.prems have "\<forall>w. \<exists>res w'. scan_query env domain TypeDS ip True w = ((res, None), w')"
    by simp
  then obtain res w1 where q: "scan_query env domain TypeDS ip True w = ((res, None), w1)"
    by blast
  from Cons.prems have p: "\<forall>ip\<in>set pre. \<forall>w. \<exists>res w'. scan_query env domain TypeDS ip True w = ((res, None), w')"
    by simp
  show ?case
  proof (cases "Response_Msg res")
    case None
    with q show ?thesis by simp
  next
    case (Some m)
    show ?thesis
    proof (cases "validateParentDS_answer env keyMap (Answer m) found")
      case (Inl r)
      with q Some show ?thesis by simp
    next
      case (Inr f')
      with q Some Cons.IH [OF p, of f' w1] show ?thesis by simp
    qed
  qed
qed

lemma validateParentDS_nss_outcomes:
  "fst (validateParentDS_nss env domain keyMap nsdata found w)
     \<in> {Panic, Ret (Inl (False, None))} \<union> {Ret (Inr f) | f. True}
       \<union> {Ret (Inl (False, Some (NoDS domain nsip))) | nsip. True}"
proof (induction nsdata arbitrary: found w)
  case Nil
  show ?case by simp
next
  case (Cons ns nsdata)
  obtain r w1 where i: "validateParentDS_ips env domain keyMap (IP ns) found w = (r, w1)"
    by (cases "validateParentDS_ips env domain keyMap (IP ns) found w")
  with validateParentDS_ips_outcomes [of env domain keyMap "IP ns" found w]
  consider "r = Panic" | "r = Ret (Inl (False, None))" | f where "r = Ret (Inr f)"
    | nsip where "r = Ret (Inl (False, Some (NoDS domain nsip)))" by auto
  then show ?case
  proof cases
    case 3
    with i Cons.IH [of f w1] show ?thesis by simp
  qed (use i in auto)
qed

lemma validateParentDS_nss_answered:
  assumes "\<forall>nsip w res w'. scan_query env domain TypeDS nsip True w = ((res, None), w') \<longrightarrow>
     (\<exists>m. Response_Msg res = Some m \<and> Answer m \<noteq> [])"
  shows "fst (validateParentDS_nss env domain keyMap nsdata found w)
     \<in> {Ret (Inl (False, None))} \<union> {Ret (Inr f) | f. True}"
proof (induction nsdata arbitrary: found w)
  case Nil
  show ?case by simp
next
  case (Cons ns nsdata)
  obtain r w1 where i: "validateParentDS_ips env domain keyMap (IP ns) found w = (r, w1)"
    by (cases "validateParentDS_ips env domain keyMap (IP ns) found w")
  with validateParentDS_ips_answered [OF assms, of keyMap "IP ns" found w]
  consider "r = Ret (Inl (False, None))" | f where "r = Ret (Inr f)" by auto
  then show ?case
  proof cases
    case 2
    with i Cons.IH [of f w1] show ?thesis by simp
  qed (use i in auto)
qed

lemma validateParentDS_nss_reaches_mismatch:
  assumes h: "\<forall>w. \<exists>res w' m ds key childDS.
       scan_query env domain TypeDS nsipB True w = ((res, None), w') \<and> Response_Msg res = Some m
       \<and> DS_RR ds \<in> set (Answer m) \<and> keyMap (DS_KeyTag ds) = Some key \<and> DigestType ds \<noteq> 3
       \<and> ToDS env key (DigestType ds) = Some childDS \<and> Digest ds \<noteq> Digest childDS"
  shows "\<exists>ns\<in>set nsdata. \<exists>pre post. IP ns = pre @ nsipB # post
       \<and> (\<forall>ip\<in>set pre. \<forall>w. \<exists>res w'. scan_query env domain TypeDS ip True w = ((res, None), w')) \<Longrightarrow>
     fst (validateParentDS_nss env domain keyMap nsdata found w) \<noteq> Ret (Inr f)"
proof (induction nsdata arbitrary: found w)
  case Nil
  then show ?case by simp
next
  case (Cons ns nsdata)
  obtain r w1 where i: "validateParentDS_ips env domain keyMap (IP ns) found w = (r, w1)"
    by (cases "validateParentDS_ips env domain keyMap (IP ns) found w")
  show ?case
  proof (cases "\<exists>f'. r = Ret (Inr f')")
    case False
    with i show ?thesis by (cases r) (auto split: sum.splits)
  next
    case True
    then obtain f' where r: "r = Ret (Inr f')" by blast
    define P where "P = (\<lambda>ns :: NSInfo. \<exists>pre post. IP ns = pre @ nsipB # post
       \<and> (\<forall>ip\<in>set pre. \<forall>w. \<exists>res w'. scan_query env domain TypeDS ip True w = ((res, None), w')))"
    have "\<not> P ns"
    proof
      assume "P ns"
      then obtain pre post where "IP ns = pre @ nsipB # post"
        "\<forall>ip\<in>set pre. \<forall>w. \<exists>res w'. scan_query env domain TypeDS ip True w = ((res, None), w')"
        unfolding P_def by blast
      with validateParentDS_ips_reaches_mismatch [OF h, of pre post found w f'] i r
      show False by simp
    qed
    moreover from Cons.prems have "\<exists>n\<in>set (ns # nsdata). P n" unfolding P_def .
    ultimately have "\<exists>n\<in>set nsdata. P n" by auto
    then have "\<exists>ns\<in>set nsdata. \<exists>pre post. IP ns = pre @ nsipB # post
       \<and> (\<forall>ip\<in>set pre. \<forall>w. \<exists>res w'. scan_query env domain TypeDS ip True w = ((res, None), w'))"
      unfolding P_def .
    from Cons.IH [OF this, of f' w1] i r show ?thesis by simp
  qed
qed

lemma validateChain_of_false_nil:
  "fst (validateDomain env domain w) = Ret (False, None) \<Longrightarrow>
   fst (validateChain env domain w) = Ret (False, Some ChainFailed)"
  by (cases "validateDomain env domain w") (simp add: validateChain.simps [of env domain w])

lemma validateParentDS_reaches_mismatch:
  assumes h: "\<forall>w. \<exists>res w' m ds key childDS.
       scan_query env domain TypeDS nsipB True w = ((res, None), w') \<and> Response_Msg res = Some m
       \<and> DS_RR ds \<in> set (Answer m) \<and> keyMap (DS_KeyTag ds) = Some key \<and> DigestType ds \<noteq> 3
       \<and> ToDS env key (DigestType ds) = Some childDS \<and> Digest ds \<noteq> Digest childDS"
    and p: "\<forall>w. \<exists>ns\<in>set (fst (fst (FindNS env (getParentDomain domain) w))).
       \<exists>pre post. IP ns = pre @ nsipB # post
         \<and> (\<forall>ip\<in>set pre. \<forall>w. \<exists>res w'. scan_query env domain TypeDS ip True w = ((res, None), w'))"
  shows "fst (validateParentDS env domain keyMap w)
      \<in> {Panic, Ret (False, None)} \<union> {Ret (False, Some (NoDS domain nsip)) | nsip. True}"
    and "\<forall>nsip w res w'. scan_query env domain TypeDS nsip True w = ((res, None), w') \<longrightarrow>
       (\<exists>m. Response_Msg res = Some m \<and> Answer m \<noteq> []) \<Longrightarrow>
     fst (validateParentDS env domain keyMap w) = Ret (False, None)"
proof -
  obtain nsdata err w1 where f: "FindNS env (getParentDomain domain) w = ((nsdata, err), w1)"
    by (cases "FindNS env (getParentDomain domain) w") auto
  with p have "\<exists>ns\<in>set nsdata. \<exists>pre post. IP ns = pre @ nsipB # post
       \<and> (\<forall>ip\<in>set pre. \<forall>w. \<exists>res w'. scan_query env domain TypeDS ip True w = ((res, None), w'))"
    by (metis fst_conv)
  from validateParentDS_nss_reaches_mismatch [OF h this]
  have n: "fst (validateParentDS_nss env domain keyMap nsdata False w1) \<noteq> Ret (Inr f)" for f .
  obtain r w2 where r: "validateParentDS_nss env domain keyMap nsdata False w1 = (r, w2)"
    by (cases "validateParentDS_nss env domain keyMap nsdata False w1")
  from r n have ni: "r \<noteq> Ret (Inr f)" for f by (metis fst_conv)
  from validateParentDS_nss_outcomes [of env domain keyMap nsdata False w1] r ni
  consider "r = Panic" | "r = Ret (Inl (False, None))"
    | nsip where "r = Ret (Inl (False, Some (NoDS domain nsip)))" by auto
  then show "fst (validateParentDS env domain keyMap w)
      \<in> {Panic, Ret (False, None)} \<union> {Ret (False, Some (NoDS domain nsip)) | nsip. True}"
    using f r by cases (auto simp: validateParentDS_def)
  assume "\<forall>nsip w res w'. scan_query env domain TypeDS nsip True w = ((res, None), w') \<longrightarrow>
       (\<exists>m. Response_Msg res = Some m \<and> Answer m \<noteq> [])"
  from validateParentDS_nss_answered [OF this, of keyMap nsdata False w1] r ni
  have "r = Ret (Inl (False, None))" by auto
  with f r show "fst (validateParentDS env domain keyMap w) = Ret (False, None)"
    by (simp add: validateParentDS_def)
qed

text \<open>
  Claim C1, as stated, fails: in the test zone the parent's \<open>DS\<close> has the key tag of
  \<open>key1\<close> and a digest other than the one derived from \<open>key1\<close>, and \<open>validateDomain\<close>
  returns false with a nil error, not with an error value.
\<close>

theorem validateDomain_digest_mismatch_counterexample:
  "KeyTag (zone [''192.0.2.1''] signed_keys [DS_RR ds_bad]) key1 = DS_KeyTag ds_bad
   \<and> map_option Digest (ToDS (zone [''192.0.2.1''] signed_keys [DS_RR ds_bad]) key1 (DigestType ds_bad))
      = Some ''KEY1''
   \<and> Digest ds_bad = ''KEY0''
   \<and> validateDomain (zone [''192.0.2.1''] signed_keys [DS_RR ds_bad]) ''example.test.'' ()
      = (Ret (False, None), ())"
  by code_simp

text \<open>
  Claim C1, amended. A \<open>DS\<close> record whose key tag is in the key map, whose digest type is
  not 3 and is one the library derives a digest for, and whose digest differs from the
  derived one, ends the DS loop with \<open>(false, nil)\<close>, whatever was matched before. For a
  zone whose DNSKEY phase has passed and where a parent nameserver has an address
  \<open>nsipB\<close> that answers the \<open>DS\<close> query with such a record (the addresses listed before
  it for that nameserver answering too), \<open>validateDomain\<close> does not succeed, whatever the
  other parent servers publish: it returns false with a nil error, unless an answer
  asked for before is empty (\<open>NoDS\<close>) or has no message (a panic). When every \<open>DS\<close>
  answer that arrives holds records, \<open>validateDomain\<close> returns false with a nil error, and
  \<open>validateChain\<close> returns false with the error "validateChain failed".
\<close>

theorem validateDomain_digest_mismatch:
  "(DS_RR ds \<in> set answer \<and> keyMap (DS_KeyTag ds) = Some key \<and> DigestType ds \<noteq> 3
      \<and> ToDS env key (DigestType ds) = Some childDS \<and> Digest ds \<noteq> Digest childDS
     \<longrightarrow> validateParentDS_answer env keyMap answer found = Inl (False, None))
   \<and> (FindNS env domain w = ((nsdata, err), w1)
      \<and> validateDomain_nss env domain nsdata Map.empty w1 = (Ret (Inr keyMap), w2)
      \<and> (\<forall>w. \<exists>ns\<in>set (fst (fst (FindNS env (getParentDomain domain) w))).
            \<exists>pre post. IP ns = pre @ nsipB # post
              \<and> (\<forall>ip\<in>set pre. \<forall>w. \<exists>res w'.
                    scan_query env domain TypeDS ip True w = ((res, None), w')))
      \<and> (\<forall>w. \<exists>res w' m ds key childDS.
            scan_query env domain TypeDS nsipB True w = ((res, None), w') \<and> Response_Msg res = Some m
            \<and> DS_RR ds \<in> set (Answer m) \<and> keyMap (DS_KeyTag ds) = Some key \<and> DigestType ds \<noteq> 3
            \<and> ToDS env key (DigestType ds) = Some childDS \<and> Digest ds \<noteq> Digest childDS)
     \<longrightarrow> fst (validateDomain env domain w)
           \<in> {Panic, Ret (False, None)} \<union> {Ret (False, Some (NoDS domain nsip)) | nsip. True}
       \<and> ((\<forall>nsip w res w'. scan_query env domain TypeDS nsip True w = ((res, None), w') \<longrightarrow>
              (\<exists>m. Response_Msg res = Some m \<and> Answer m \<noteq> []))
          \<longrightarrow> fst (validateDomain env domain w) = Ret (False, None)
            \<and> fst (validateChain env domain w) = Ret (False, Some ChainFailed)))"
proof -
  have 1: "validateParentDS_answer env keyMap answer found = Inl (False, None)"
    if "DS_RR ds \<in> set answer \<and> keyMap (DS_KeyTag ds) = Some key \<and> DigestType ds \<noteq> 3
      \<and> ToDS env key (DigestType ds) = Some childDS \<and> Digest ds \<noteq> Digest childDS"
    using that validateParentDS_answer_mismatch [of ds answer keyMap key env childDS found] by simp
  have 2: "fst (validateDomain env domain w)
           \<in> {Panic, Ret (False, None)} \<union> {Ret (False, Some (NoDS domain nsip)) | nsip. True}
       \<and> ((\<forall>nsip w res w'. scan_query env domain TypeDS nsip True w = ((res, None), w') \<longrightarrow>
              (\<exists>m. Response_Msg res = Some m \<and> Answer m \<noteq> []))
          \<longrightarrow> fst (validateDomain env domain w) = Ret (False, None)
            \<and> fst (validateChain env domain w) = Ret (False, Some ChainFailed))"
    if f: "FindNS env domain w = ((nsdata, err), w1)"
      and n: "validateDomain_nss env domain nsdata Map.empty w1 = (Ret (Inr keyMap), w2)"
      and p: "\<forall>w. \<exists>ns\<in>set (fst (fst (FindNS env (getParentDomain domain) w))).
            \<exists>pre post. IP ns = pre @ nsipB # post
              \<and> (\<forall>ip\<in>set pre. \<forall>w. \<exists>res w'.
                    scan_query env domain TypeDS ip True w = ((res, None), w'))"
      and h: "\<forall>w. \<exists>res w' m ds key childDS.
            scan_query env domain TypeDS nsipB True w = ((res, None), w') \<and> Response_Msg res = Some m
            \<and> DS_RR ds \<in> set (Answer m) \<and> keyMap (DS_KeyTag ds) = Some key \<and> DigestType ds \<noteq> 3
            \<and> ToDS env key (DigestType ds) = Some childDS \<and> Digest ds \<noteq> Digest childDS"
  proof -
    obtain x w3 where f2: "FindNS env (getParentDomain domain) w2 = (x, w3)"
      by (cases "FindNS env (getParentDomain domain) w2")
    from f n f2 have e: "validateDomain env domain w = validateParentDS env domain keyMap w3"
      by (simp add: validateDomain_def)
    from validateParentDS_reaches_mismatch(1) [OF h p, of w3] e
    have a: "fst (validateDomain env domain w)
           \<in> {Panic, Ret (False, None)} \<union> {Ret (False, Some (NoDS domain nsip)) | nsip. True}"
      by simp
    have b: "fst (validateDomain env domain w) = Ret (False, None)
            \<and> fst (validateChain env domain w) = Ret (False, Some ChainFailed)"
      if "\<forall>nsip w res w'. scan_query env domain TypeDS nsip True w = ((res, None), w') \<longrightarrow>
              (\<exists>m. Response_Msg res = Some m \<and> Answer m \<noteq> [])"
      using validateParentDS_reaches_mismatch(2) [OF h p that, of w3] e
        validateChain_of_false_nil [of env domain w] by simp
    from a b show ?thesis by blast
  qed
  from 1 2 show ?thesis by blast
qed

theorem validateDomain_digest_mismatch_witness:
  "validateParentDS_answer (zone_parents good_then_bad) (Map.empty(4 \<mapsto> key1))
        [DS_RR ds_bad] True = Inl (False, None)
   \<and> fst (scan_query (zone_parents good_then_bad) ''example.test.'' TypeDS ''192.0.2.53'' True ())
      = reply [DS_RR ds_good]
   \<and> fst (validateDomain (zone_parents good_then_bad) ''example.test.'' ()) = Ret (False, None)
   \<and> fst (validateChain (zone_parents good_then_bad) ''example.test.'' ())
      = Ret (False, Some ChainFailed)"
proof -
  let ?Z = "zone_parents good_then_bad"
  let ?ns = "[\<lparr>NSInfo_Name = ''ns.example.test.'', IP = [''192.0.2.1'']\<rparr>]"
  let ?km = "Map.empty(4 \<mapsto> key1)"
  let ?child = "\<lparr>Name = ''example.test.'', Class = 1, Ttl = 3600, DS_KeyTag = 4, DS_Algorithm = 8,
          DigestType = 2, Digest = ''KEY1''\<rparr>"
  have t: "ToDS ?Z key1 (DigestType ds_bad) = Some ?child"
    by (simp add: zone_parents_def fixture_def key1_def ds_bad_def)
  have a: "DS_RR ds_bad \<in> set [DS_RR ds_bad] \<and> ?km (DS_KeyTag ds_bad) = Some key1
      \<and> DigestType ds_bad \<noteq> 3 \<and> ToDS ?Z key1 (DigestType ds_bad) = Some ?child
      \<and> Digest ds_bad \<noteq> Digest ?child"
    using t by (simp add: ds_bad_def)
  have g: "fst (scan_query ?Z ''example.test.'' TypeDS ''192.0.2.53'' True ())
      = reply [DS_RR ds_good]"
    by (simp add: zone_parents_def fixture_def parents_answers_def good_then_bad_def
        TypeDS_def TypeDNSKEY_def)
  have f: "FindNS ?Z ''example.test.'' () = ((?ns, None), ())"
    by (simp add: zone_parents_def fixture_def parents_nss_def)
  have n: "validateDomain_nss ?Z ''example.test.'' ?ns Map.empty () = (Ret (Inr ?km), ())"
    by (simp add: zone_parents_def fixture_def parents_answers_def reply_def signed_keys_def
        LookupDNSKEY_def validateDNSKEY_def validateRRSIG_def RRSIG_Verify_def IsRRset_def
        explicitValid_def ValidityPeriod_def IsZero_def int64_def year68_def
        signed_divide_int_def key1_def sig1_def TypeDNSKEY_def)
  have p: "\<forall>w. \<exists>ns\<in>set (fst (fst (FindNS ?Z (getParentDomain ''example.test.'') w))).
            \<exists>pre post. IP ns = pre @ ''192.0.2.54'' # post
              \<and> (\<forall>ip\<in>set pre. \<forall>w. \<exists>res w'.
                    scan_query ?Z ''example.test.'' TypeDS ip True w = ((res, None), w'))"
  proof -
    have "getParentDomain ''example.test.'' = ''test.''" by code_simp
    moreover have "\<exists>pre post. [''192.0.2.54''] = pre @ ''192.0.2.54'' # post
              \<and> (\<forall>ip\<in>set pre. \<forall>w. \<exists>res w'.
                    scan_query ?Z ''example.test.'' TypeDS ip True w = ((res, None), w'))"
      by (intro exI [of _ "[]"]) simp
    ultimately show ?thesis by (simp add: zone_parents_def fixture_def parents_nss_def)
  qed
  have h: "\<forall>w. \<exists>res w' m ds key childDS.
            scan_query ?Z ''example.test.'' TypeDS ''192.0.2.54'' True w = ((res, None), w')
            \<and> Response_Msg res = Some m
            \<and> DS_RR ds \<in> set (Answer m) \<and> ?km (DS_KeyTag ds) = Some key \<and> DigestType ds \<noteq> 3
            \<and> ToDS ?Z key (DigestType ds) = Some childDS \<and> Digest ds \<noteq> Digest childDS"
  proof
    fix w :: unit
    have "scan_query ?Z ''example.test.'' TypeDS ''192.0.2.54'' True w = (reply [DS_RR ds_bad], w)"
      by (simp add: zone_parents_def fixture_def parents_answers_def good_then_bad_def
          TypeDS_def TypeDNSKEY_def)
    with a show "\<exists>res w' m ds key childDS.
            scan_query ?Z ''example.test.'' TypeDS ''192.0.2.54'' True w = ((res, None), w')
            \<and> Response_Msg res = Some m
            \<and> DS_RR ds \<in> set (Answer m) \<and> ?km (DS_KeyTag ds) = Some key \<and> DigestType ds \<noteq> 3
            \<and> ToDS ?Z key (DigestType ds) = Some childDS \<and> Digest ds \<noteq> Digest childDS"
      by (auto simp: reply_def)
  qed
  have r: "\<forall>nsip w res w'. scan_query ?Z ''example.test.'' TypeDS nsip True w = ((res, None), w') \<longrightarrow>
              (\<exists>m. Response_Msg res = Some m \<and> Answer m \<noteq> [])"
    by (auto simp: zone_parents_def fixture_def parents_answers_def good_then_bad_def reply_def
        TypeDS_def TypeDNSKEY_def)
  from validateDomain_digest_mismatch [of ds_bad "[DS_RR ds_bad]" ?km key1 ?Z ?child True
      "''example.test.''" "()" ?ns None "()" "()" "''192.0.2.54''"] a g f n p h r
  show ?thesis by blast
qed

section \<open>The DNSKEY phase\<close>

lemma LookupDNSKEY_query_error:
  "scan_query env domain TypeDNSKEY nsip True w = ((res, Some e), w1) \<Longrightarrow>
   LookupDNSKEY env domain nsip keyMap w = (Ret (res, None, keyMap), w1)"
  by (simp add: LookupDNSKEY_def)

lemma validateDomain_ips_query_error:
  "scan_query env domain TypeDNSKEY nsip True w = ((res, Some e), w1) \<Longrightarrow> Response_Msg res = None \<Longrightarrow>
   validateDomain_ips env domain (nsip # ips) keyMap w = validateDomain_ips env domain ips keyMap w1"
  by (simp add: LookupDNSKEY_query_error)

lemma validateDomain_ips_all_fail:
  assumes "\<forall>nsip w. \<exists>res e w'. scan_query env domain TypeDNSKEY nsip True w = ((res, Some e), w')
      \<and> Response_Msg res = None"
  shows "fst (validateDomain_ips env domain ips keyMap w) = Ret (Inr keyMap)"
proof (induction ips arbitrary: w)
  case Nil
  show ?case by simp
next
  case (Cons nsip ips)
  from assms obtain res e w1 where q: "scan_query env domain TypeDNSKEY nsip True w = ((res, Some e), w1)"
    "Response_Msg res = None" by blast
  show ?case using Cons.IH [of w1] validateDomain_ips_query_error [OF q, of ips keyMap] by simp
qed

lemma validateDomain_nss_all_fail:
  assumes "\<forall>nsip w. \<exists>res e w'. scan_query env domain TypeDNSKEY nsip True w = ((res, Some e), w')
      \<and> Response_Msg res = None"
  shows "fst (validateDomain_nss env domain nsdata keyMap w) = Ret (Inr keyMap)"
proof (induction nsdata arbitrary: w)
  case Nil
  show ?case by simp
next
  case (Cons ns nsdata)
  obtain r w1 where i: "validateDomain_ips env domain (IP ns) keyMap w = (r, w1)"
    by (cases "validateDomain_ips env domain (IP ns) keyMap w")
  with validateDomain_ips_all_fail [OF assms, of "IP ns" keyMap w] have "r = Ret (Inr keyMap)" by simp
  with i Cons.IH [of w1] show ?case by simp
qed

lemma validateParentDS_answer_no_keys:
  "validateParentDS_answer env Map.empty answer found = Inr found"
  by (rule validateParentDS_answer_skip) simp

lemma validateParentDS_ips_no_keys:
  "fst (validateParentDS_ips env domain Map.empty ips False w)
     \<in> {Panic, Ret (Inr False)} \<union> {Ret (Inl (False, Some (NoDS domain nsip))) | nsip. True}"
proof (induction ips arbitrary: w)
  case Nil
  show ?case by simp
next
  case (Cons nsip ips)
  obtain res err w1 where q: "scan_query env domain TypeDS nsip True w = ((res, err), w1)"
    by (cases "scan_query env domain TypeDS nsip True w") auto
  show ?case
  proof (cases err)
    case (Some e)
    with q show ?thesis by simp
  next
    case None
    show ?thesis
    proof (cases "Response_Msg res")
      case n: None
      with q None show ?thesis by simp
    next
      case (Some m)
      with q None Cons.IH [of w1] show ?thesis
        by (auto simp: validateParentDS_answer_no_keys)
    qed
  qed
qed

lemma validateParentDS_nss_no_keys:
  "fst (validateParentDS_nss env domain Map.empty nsdata False w)
     \<in> {Panic, Ret (Inr False)} \<union> {Ret (Inl (False, Some (NoDS domain nsip))) | nsip. True}"
proof (induction nsdata arbitrary: w)
  case Nil
  show ?case by simp
next
  case (Cons ns nsdata)
  obtain r w1 where i: "validateParentDS_ips env domain Map.empty (IP ns) False w = (r, w1)"
    by (cases "validateParentDS_ips env domain Map.empty (IP ns) False w")
  with validateParentDS_ips_no_keys [of env domain "IP ns" w] Cons.IH [of w1]
  show ?case by auto
qed

lemma validateParentDS_no_keys:
  "fst (validateParentDS env domain Map.empty w)
     \<in> {Panic, Ret (False, Some (NoMatchingKeyTag domain (getParentDomain domain)))}
       \<union> {Ret (False, Some (NoDS domain nsip)) | nsip. True}"
proof -
  obtain nsdata err w1 where f: "FindNS env (getParentDomain domain) w = ((nsdata, err), w1)"
    by (cases "FindNS env (getParentDomain domain) w") auto
  obtain r w2 where n: "validateParentDS_nss env domain Map.empty nsdata False w1 = (r, w2)"
    by (cases "validateParentDS_nss env domain Map.empty nsdata False w1")
  with validateParentDS_nss_no_keys [of env domain nsdata w1] f
  show ?thesis by (auto simp: validateParentDS_def)
qed


lemma LookupDNSKEY_loop_error:
  "fst (LookupDNSKEY_loop env answer found keyMap) = Some e \<Longrightarrow> e = InconsistentKeys"
proof (induction answer arbitrary: found keyMap)
  case Nil
  then show ?case by simp
next
  case (Cons a answer)
  then show ?case by (cases a) (auto split: option.splits if_splits)
qed

lemma LookupDNSKEY_loop_error_triple:
  "LookupDNSKEY_loop env answer found keyMap = (Some e, found', keyMap') \<Longrightarrow> e = InconsistentKeys"
  using LookupDNSKEY_loop_error [of env answer found keyMap e] by simp










lemma LookupDNSKEY_error:
  "LookupDNSKEY env domain nsip keyMap w = (Ret (res, Some e, keyMap'), w') \<Longrightarrow>
   e = InconsistentKeys \<or> e = NoDNSKEY domain nsip"
  by (auto simp: LookupDNSKEY_def split: prod.splits option.splits if_splits
      dest: LookupDNSKEY_loop_error_triple)

lemma validateDomain_ips_error:
  "validateDomain_ips env domain ips keyMap w = (Ret (Inl r), w') \<Longrightarrow>
   \<exists>e. r = (False, Some e) \<and>
     (e = InconsistentKeys \<or> (\<exists>nsip. e = NoDNSKEY domain nsip) \<or> e = DNSKEYValidationFailed domain)"
proof (induction ips arbitrary: keyMap w)
  case Nil
  then show ?case by simp
next
  case (Cons nsip ips)
  then show ?case
    by (auto split: prod.splits res.splits option.splits if_splits dest!: LookupDNSKEY_error)
qed

lemma validateDomain_nss_error:
  "validateDomain_nss env domain nsdata keyMap w = (Ret (Inl r), w') \<Longrightarrow>
   \<exists>e. r = (False, Some e) \<and>
     (e = InconsistentKeys \<or> (\<exists>nsip. e = NoDNSKEY domain nsip) \<or> e = DNSKEYValidationFailed domain)"
proof (induction nsdata arbitrary: keyMap w)
  case Nil
  then show ?case by simp
next
  case (Cons ns nsdata)
  then show ?case
    by (auto split: prod.splits res.splits sum.splits dest!: validateDomain_ips_error)
qed




section \<open>The errors of the zone validator\<close>

lemma validateParentDS_error:
  "fst (validateParentDS env domain keyMap w) = Ret (v, Some e) \<Longrightarrow>
   (\<exists>nsip. e = NoDS domain nsip) \<or> e = NoMatchingKeyTag domain (getParentDomain domain)"
proof -
  assume a: "fst (validateParentDS env domain keyMap w) = Ret (v, Some e)"
  obtain nsdata err w1 where f: "FindNS env (getParentDomain domain) w = ((nsdata, err), w1)"
    by (cases "FindNS env (getParentDomain domain) w") auto
  obtain r w2 where r: "validateParentDS_nss env domain keyMap nsdata False w1 = (r, w2)"
    by (cases "validateParentDS_nss env domain keyMap nsdata False w1")
  from validateParentDS_nss_outcomes [of env domain keyMap nsdata False w1] r
  consider "r = Panic" | "r = Ret (Inl (False, None))" | f where "r = Ret (Inr f)"
    | nsip where "r = Ret (Inl (False, Some (NoDS domain nsip)))" by auto
  then show ?thesis
    using a f r by cases (auto simp: validateParentDS_def split: if_splits)
qed

lemma validateDomain_error:
  "fst (validateDomain env domain w) = Ret (v, Some e) \<Longrightarrow>
   e = InconsistentKeys \<or> (\<exists>nsip. e = NoDNSKEY domain nsip) \<or> e = DNSKEYValidationFailed domain
   \<or> (\<exists>nsip. e = NoDS domain nsip) \<or> e = NoMatchingKeyTag domain (getParentDomain domain)"
proof -
  assume a: "fst (validateDomain env domain w) = Ret (v, Some e)"
  obtain nsdata err w1 where f: "FindNS env domain w = ((nsdata, err), w1)"
    by (cases "FindNS env domain w") auto
  obtain r w2 where n: "validateDomain_nss env domain nsdata Map.empty w1 = (r, w2)"
    by (cases "validateDomain_nss env domain nsdata Map.empty w1")
  show ?thesis
  proof (cases r)
    case Panic
    with a f n show ?thesis by (simp add: validateDomain_def)
  next
    case (Ret x)
    show ?thesis
    proof (cases x)
      case (Inl p)
      with n Ret validateDomain_nss_error [of env domain nsdata Map.empty w1 p w2]
      obtain e' where "p = (False, Some e')"
        "e' = InconsistentKeys \<or> (\<exists>nsip. e' = NoDNSKEY domain nsip) \<or> e' = DNSKEYValidationFailed domain"
        by blast
      with a f n Ret Inl show ?thesis by (auto simp: validateDomain_def)
    next
      case (Inr keyMap)
      obtain x w3 where f2: "FindNS env (getParentDomain domain) w2 = (x, w3)"
        by (cases "FindNS env (getParentDomain domain) w2")
      with a f n Ret Inr have "fst (validateParentDS env domain keyMap w3) = Ret (v, Some e)"
        by (simp add: validateDomain_def)
      from validateParentDS_error [OF this] show ?thesis by blast
    qed
  qed
qed

text \<open>
  Claim C7, as stated, fails: in the test zone the DNSKEY query to the first address
  times out, the second address answers, and \<open>validateDomain\<close> returns true with a nil
  error.
\<close>

theorem validateDomain_skips_failed_DNSKEY_query_counterexample:
  "scan_query (zone [''192.0.2.1'', ''192.0.2.2''] first_times_out [DS_RR ds_good])
      ''example.test.'' TypeDNSKEY ''192.0.2.1'' True ()
     = ((\<lparr>Response_Msg = None\<rparr>, Some (TransportError ''i/o timeout'')), ())
   \<and> validateDomain (zone [''192.0.2.1'', ''192.0.2.2''] first_times_out [DS_RR ds_good])
      ''example.test.'' () = (Ret (True, None), ())"
  by code_simp

text \<open>
  Claim C7, amended. A DNSKEY query that fails at the wire layer (an error and no
  message) is not surfaced: \<open>LookupDNSKEY\<close> returns a nil error and the key map as it
  was, and \<open>validateDomain\<close> goes on with the next address, in the state of the world
  the failed query left. When every DNSKEY query of the zone fails, \<open>validateDomain\<close>
  returns false with \<open>NoDS\<close> or \<open>NoMatchingKeyTag\<close> out of the DS phase, the key map
  being empty (or panics there on a reply without a message). Whenever \<open>validateDomain\<close>
  returns an error, it is \<open>InconsistentKeys\<close>, \<open>NoDNSKEY\<close>, \<open>DNSKEYValidationFailed\<close>,
  \<open>NoDS\<close> or \<open>NoMatchingKeyTag\<close>, never a \<open>TransportError\<close>.
\<close>

theorem validateDomain_skips_failed_DNSKEY_query:
  "(scan_query env domain TypeDNSKEY nsip True w = ((res, Some e), w1) \<and> Response_Msg res = None
     \<longrightarrow> LookupDNSKEY env domain nsip keyMap w = (Ret (res, None, keyMap), w1)
       \<and> validateDomain_ips env domain (nsip # ips) keyMap w
           = validateDomain_ips env domain ips keyMap w1)
   \<and> ((\<forall>nsip w. \<exists>res e w'. scan_query env domain TypeDNSKEY nsip True w = ((res, Some e), w')
            \<and> Response_Msg res = None)
     \<longrightarrow> fst (validateDomain env domain w)
           \<in> {Panic, Ret (False, Some (NoMatchingKeyTag domain (getParentDomain domain)))}
             \<union> {Ret (False, Some (NoDS domain nsip)) | nsip. True})
   \<and> (fst (validateDomain env domain w) = Ret (v, Some e')
     \<longrightarrow> e' = InconsistentKeys \<or> (\<exists>nsip. e' = NoDNSKEY domain nsip)
       \<or> e' = DNSKEYValidationFailed domain
       \<or> (\<exists>nsip. e' = NoDS domain nsip) \<or> e' = NoMatchingKeyTag domain (getParentDomain domain))"
proof (intro conjI impI)
  assume a: "scan_query env domain TypeDNSKEY nsip True w = ((res, Some e), w1) \<and> Response_Msg res = None"
  then show "LookupDNSKEY env domain nsip keyMap w = (Ret (res, None, keyMap), w1)"
    by (simp add: LookupDNSKEY_query_error)
  from a show "validateDomain_ips env domain (nsip # ips) keyMap w
           = validateDomain_ips env domain ips keyMap w1"
    using validateDomain_ips_query_error [of env domain nsip w res e w1 ips keyMap] by simp
next
  assume a: "\<forall>nsip w. \<exists>res e w'. scan_query env domain TypeDNSKEY nsip True w = ((res, Some e), w')
            \<and> Response_Msg res = None"
  obtain nsdata err w1 where f: "FindNS env domain w = ((nsdata, err), w1)"
    by (cases "FindNS env domain w") auto
  obtain r w2 where n: "validateDomain_nss env domain nsdata Map.empty w1 = (r, w2)"
    by (cases "validateDomain_nss env domain nsdata Map.empty w1")
  with validateDomain_nss_all_fail [OF a, of nsdata Map.empty w1] have r: "r = Ret (Inr Map.empty)"
    by simp
  obtain x w3 where f2: "FindNS env (getParentDomain domain) w2 = (x, w3)"
    by (cases "FindNS env (getParentDomain domain) w2")
  from f n r f2 have "validateDomain env domain w = validateParentDS env domain Map.empty w3"
    by (simp add: validateDomain_def)
  with validateParentDS_no_keys [of env domain w3]
  show "fst (validateDomain env domain w)
           \<in> {Panic, Ret (False, Some (NoMatchingKeyTag domain (getParentDomain domain)))}
             \<union> {Ret (False, Some (NoDS domain nsip)) | nsip. True}"
    by simp
next
  assume "fst (validateDomain env domain w) = Ret (v, Some e')"
  then show "e' = InconsistentKeys \<or> (\<exists>nsip. e' = NoDNSKEY domain nsip)
       \<or> e' = DNSKEYValidationFailed domain
       \<or> (\<exists>nsip. e' = NoDS domain nsip) \<or> e' = NoMatchingKeyTag domain (getParentDomain domain)"
    by (rule validateDomain_error)
qed

theorem validateDomain_skips_failed_DNSKEY_query_witness:
  "scan_query (zone [''192.0.2.1'', ''192.0.2.2''] first_times_out [DS_RR ds_good])
      ''example.test.'' TypeDNSKEY ''192.0.2.1'' True ()
     = ((\<lparr>Response_Msg = None\<rparr>, Some (TransportError ''i/o timeout'')), ())
   \<and> validateDomain_ips (zone [''192.0.2.1'', ''192.0.2.2''] first_times_out [DS_RR ds_good])
        ''example.test.'' [''192.0.2.1'', ''192.0.2.2''] Map.empty ()
      = validateDomain_ips (zone [''192.0.2.1'', ''192.0.2.2''] first_times_out [DS_RR ds_good])
        ''example.test.'' [''192.0.2.2''] Map.empty ()
   \<and> fst (validateDomain (zone [''192.0.2.1''] (no_answers ''example.test.'' TypeDNSKEY) [DS_RR ds_good])
        ''example.test.'' ())
      = Ret (False, Some (NoMatchingKeyTag ''example.test.'' ''test.''))"
proof -
  let ?Z = "zone [''192.0.2.1'', ''192.0.2.2''] first_times_out [DS_RR ds_good]"
  let ?N = "zone [''192.0.2.1''] (no_answers ''example.test.'' TypeDNSKEY) [DS_RR ds_good]"
  have q: "scan_query ?Z ''example.test.'' TypeDNSKEY ''192.0.2.1'' True ()
     = ((\<lparr>Response_Msg = None\<rparr>, Some (TransportError ''i/o timeout'')), ())"
    by (simp add: zone_def fixture_def zone_answers_def first_times_out_def no_answers_def)
  have a: "\<forall>nsip w. \<exists>res e w'. scan_query ?N ''example.test.'' TypeDNSKEY nsip True w = ((res, Some e), w')
            \<and> Response_Msg res = None"
    by (simp add: zone_def fixture_def zone_answers_def no_answers_def)
  have r: "fst (validateDomain ?N ''example.test.'' ())
      = Ret (False, Some (NoMatchingKeyTag ''example.test.'' ''test.''))"
    by code_simp
  from validateDomain_skips_failed_DNSKEY_query [of ?Z "''example.test.''" "''192.0.2.1''" "()"
      "\<lparr>Response_Msg = None\<rparr>" "TransportError ''i/o timeout''" "()" Map.empty "[''192.0.2.2'']"] q
  have 1: "validateDomain_ips ?Z ''example.test.'' [''192.0.2.1'', ''192.0.2.2''] Map.empty ()
      = validateDomain_ips ?Z ''example.test.'' [''192.0.2.2''] Map.empty ()"
    by simp
  from validateDomain_skips_failed_DNSKEY_query [of ?N "''example.test.''" _ "()"] a
  have "fst (validateDomain ?N ''example.test.'' ())
           \<in> {Panic, Ret (False, Some (NoMatchingKeyTag ''example.test.'' (getParentDomain ''example.test.'')))}
             \<union> {Ret (False, Some (NoDS ''example.test.'' nsip)) | nsip. True}"
    by blast
  moreover from validateDomain_skips_failed_DNSKEY_query [of ?N "''example.test.''" _ "()" _ _ _ _ _
      False "NoMatchingKeyTag ''example.test.'' ''test.''"] r
  have "NoMatchingKeyTag ''example.test.'' ''test.'' = NoMatchingKeyTag ''example.test.''
      (getParentDomain ''example.test.'')"
    by simp
  ultimately show ?thesis using q 1 r by simp
qed

end
